theory Spec2Isabelle
  imports Main
begin

section \<open>JavaScript primitives used by the registry\<close>

text \<open>
  Strings are byte strings. \<open>String.prototype.toLowerCase\<close> is modelled on the ASCII
  letters, which covers every address the registry stores (hexadecimal text); other
  characters are left as they are.
\<close>

definition toLowerCase_char :: "char \<Rightarrow> char" where
  "toLowerCase_char c =
     (let n = (of_char c :: nat)
      in if 65 \<le> n \<and> n \<le> 90 then char_of (n + 32) else c)"

definition toLowerCase :: "string \<Rightarrow> string" where
  "toLowerCase s = map toLowerCase_char s"

text \<open>\<open>s.includes(q)\<close> on strings: \<open>q\<close> occurs in \<open>s\<close> as a contiguous substring.\<close>

fun startsWith :: "string \<Rightarrow> string \<Rightarrow> bool" where
  "startsWith s [] = True"
| "startsWith [] (c # q) = False"
| "startsWith (d # s) (c # q) = (d = c \<and> startsWith s q)"

fun includes_str :: "string \<Rightarrow> string \<Rightarrow> bool" where
  "includes_str [] q = (q = [])"
| "includes_str (d # s) q = (startsWith (d # s) q \<or> includes_str s q)"

text \<open>
  Truthiness of an optional string field: \<open>undefined\<close>, \<open>null\<close> (both \<open>None\<close>) and the
  empty string are falsy. \<open>a || b\<close> yields \<open>a\<close> when it is truthy and \<open>b\<close> otherwise.
\<close>

definition truthy :: "string option \<Rightarrow> bool" where
  "truthy v = (case v of None \<Rightarrow> False | Some s \<Rightarrow> s \<noteq> [])"

definition js_or :: "string option \<Rightarrow> string option \<Rightarrow> string option" where
  "js_or a b = (if truthy a then a else b)"

text \<open>
  \<open>parseInt(text)\<close> with no radix: leading white space is skipped, an optional sign is
  read, a \<open>0x\<close>/\<open>0X\<close> prefix selects radix 16, and the longest prefix of digits is
  converted. \<open>None\<close> stands for \<open>NaN\<close>. A JSON number reaches \<open>parseInt\<close> as its
  decimal text, and an absent value as the text \<open>undefined\<close>, which has no digits.
\<close>

definition isStrWhiteSpace :: "char \<Rightarrow> bool" where
  "isStrWhiteSpace c = ((of_char c :: nat) \<in> {9, 10, 11, 12, 13, 32})"

definition digitValue :: "char \<Rightarrow> nat option" where
  "digitValue c =
     (let n = (of_char c :: nat)
      in if 48 \<le> n \<and> n \<le> 57 then Some (n - 48)
         else if 97 \<le> n \<and> n \<le> 122 then Some (n - 87)
         else if 65 \<le> n \<and> n \<le> 90 then Some (n - 55)
         else None)"

definition isDigit :: "nat \<Rightarrow> char \<Rightarrow> bool" where
  "isDigit radix c = (case digitValue c of None \<Rightarrow> False | Some d \<Rightarrow> d < radix)"

definition digitsValue :: "nat \<Rightarrow> string \<Rightarrow> int" where
  "digitsValue radix ds =
     foldl (\<lambda>acc c. acc * int radix + int (case digitValue c of None \<Rightarrow> 0 | Some d \<Rightarrow> d)) 0 ds"

definition parseDigits :: "nat \<Rightarrow> string \<Rightarrow> int option" where
  "parseDigits radix s =
     (let ds = takeWhile (isDigit radix) s
      in if ds = [] then None else Some (digitsValue radix ds))"

definition parseUnsigned :: "string \<Rightarrow> int option" where
  "parseUnsigned s =
     (case s of
        c # x # rest \<Rightarrow>
          (if c = CHR ''0'' \<and> (x = CHR ''x'' \<or> x = CHR ''X'')
           then parseDigits 16 rest else parseDigits 10 s)
      | _ \<Rightarrow> parseDigits 10 s)"

definition parseInt :: "string \<Rightarrow> int option" where
  "parseInt text =
     (case dropWhile isStrWhiteSpace text of
        [] \<Rightarrow> None
      | c # rest \<Rightarrow>
          (if c = CHR ''-'' then map_option uminus (parseUnsigned rest)
           else if c = CHR ''+'' then parseUnsigned rest
           else parseUnsigned (c # rest)))"

text \<open>\<open>parseInt(v)\<close> for an optional request value; \<open>parseInt(undefined)\<close> is \<open>NaN\<close>.\<close>

definition parseInt_opt :: "string option \<Rightarrow> int option" where
  "parseInt_opt v = (case v of None \<Rightarrow> None | Some text \<Rightarrow> parseInt text)"

text \<open>\<open>n || d\<close> for a number \<open>n\<close>: \<open>NaN\<close> and \<open>0\<close> are falsy.\<close>

definition num_or :: "int option \<Rightarrow> int \<Rightarrow> int" where
  "num_or n d = (case n of None \<Rightarrow> d | Some v \<Rightarrow> (if v = 0 then d else v))"

text \<open>
  \<open>Array.prototype.slice(start, end)\<close>: a negative index counts from the end of the
  array, both indices are brought into \<open>0..length\<close>, and an empty range gives \<open>[]\<close>.
\<close>

definition slice_index :: "int \<Rightarrow> nat \<Rightarrow> nat" where
  "slice_index i len = (if i < 0 then nat (max (int len + i) 0) else min (nat i) len)"

definition js_slice :: "int \<Rightarrow> int \<Rightarrow> 'a list \<Rightarrow> 'a list" where
  "js_slice start end xs =
     (let k = slice_index start (length xs); final = slice_index end (length xs)
      in take (final - k) (drop k xs))"

text \<open>
  \<open>Array.prototype.sort\<close> with a comparator \<open>(a, b) => key(b) - key(a)\<close> is a stable
  sort by descending key; with \<open>key(a) - key(b)\<close> by ascending key.
\<close>

definition sort_desc :: "('a \<Rightarrow> int) \<Rightarrow> 'a list \<Rightarrow> 'a list" where
  "sort_desc key xs = sort_key (\<lambda>x. - key x) xs"

definition sort_asc :: "('a \<Rightarrow> int) \<Rightarrow> 'a list \<Rightarrow> 'a list" where
  "sort_asc key xs = sort_key key xs"

subsection \<open>\<open>Map\<close> objects\<close>

text \<open>
  A JavaScript \<open>Map\<close> keeps its entries in insertion order: \<open>set\<close> on a present key
  replaces the value in place, on a new key appends; \<open>delete\<close> removes the entry.
\<close>

type_synonym ('k, 'v) js_map = "('k \<times> 'v) list"

definition Map_get :: "('k, 'v) js_map \<Rightarrow> 'k \<Rightarrow> 'v option" where
  "Map_get m k = map_of m k"

fun Map_set :: "('k, 'v) js_map \<Rightarrow> 'k \<Rightarrow> 'v \<Rightarrow> ('k, 'v) js_map" where
  "Map_set [] k v = [(k, v)]"
| "Map_set ((k', v') # m) k v = (if k' = k then (k, v) # m else (k', v') # Map_set m k v)"

definition Map_delete :: "('k, 'v) js_map \<Rightarrow> 'k \<Rightarrow> ('k, 'v) js_map" where
  "Map_delete m k = filter (\<lambda>kv. fst kv \<noteq> k) m"

definition Map_values :: "('k, 'v) js_map \<Rightarrow> 'v list" where
  "Map_values m = map snd m"

definition Map_keys :: "('k, 'v) js_map \<Rightarrow> 'k list" where
  "Map_keys m = map fst m"


section \<open>Data model\<close>

text \<open>
  The two stores of \<open>server.js\<close> hold these objects. Counters and amounts are JavaScript
  numbers that only ever hold integers; they are modelled as \<open>int\<close> (exact below
  \<open>2^53\<close>). Timestamps are the integers returned by \<open>Date.now()\<close>.
\<close>

record project =
  p_id :: string
  name :: string
  description :: string
  url :: "string option"
  logo :: "string option"
  category :: string
  tags :: "string list"
  owner :: string
  supportCount :: int
  totalSignal :: int
  createdAt :: int
  updatedAt :: int

record signal =
  s_id :: string
  projectId :: string
  address :: string
  amount :: int
  message :: "string option"
  s_createdAt :: int
  s_updatedAt :: "int option"

text \<open>
  The process state: the two \<open>Map\<close>s and the allow-list cache (\<open>None\<close> is the initial
  \<open>null\<close>). \<open>fetchCalls\<close> is not a variable of the program: it counts the calls of
  \<open>fetch\<close>, so that "without any external call" can be stated.
\<close>

record state =
  projects :: "(string, project) js_map"
  signals :: "(string, signal) js_map"
  whitelistCache :: "string set option"
  whitelistCacheTime :: int
  fetchCalls :: nat

definition init :: state where
  "init = \<lparr>projects = [], signals = [], whitelistCache = None, whitelistCacheTime = 0,
            fetchCalls = 0\<rparr>"

definition categories :: "string list" where
  "categories = [''public-goods'', ''defi'', ''nft'', ''social'', ''infrastructure'',
                 ''tooling'', ''other'']"

text \<open>
  A request body is a JSON object; each field the server reads is modelled at the type the
  API documents for it, \<open>None\<close> when it is absent. \<open>b_url\<close> and \<open>b_logo\<close> distinguish an
  absent field (\<open>None\<close>) from an explicit \<open>null\<close> (\<open>Some None\<close>), since the update handler
  does. \<open>b_amount\<close> is the text \<open>parseInt\<close> sees. Values of another JSON type, on which
  the source raises a \<open>TypeError\<close>, are outside this model.
\<close>

record body =
  b_address :: "string option"
  b_creator :: "string option"
  b_participant :: "string option"
  b_sender :: "string option"
  b_from :: "string option"
  b_name :: "string option"
  b_description :: "string option"
  b_url :: "string option option"
  b_logo :: "string option option"
  b_category :: "string option"
  b_owner :: "string option"
  b_tags :: "string list option"
  b_amount :: "string option"
  b_message :: "string option"

definition empty_body :: body where
  "empty_body = \<lparr>b_address = None, b_creator = None, b_participant = None, b_sender = None,
     b_from = None, b_name = None, b_description = None, b_url = None, b_logo = None,
     b_category = None, b_owner = None, b_tags = None, b_amount = None, b_message = None\<rparr>"

text \<open>
  What the environment supplies to one request: the answer of the remote allow-list
  service should \<open>fetch\<close> be called, the value of \<open>uuidv4()\<close>, and the clock readings
  (\<open>gate_now\<close> in \<open>fetchWhitelist\<close>, \<open>now\<close> and \<open>now2\<close> for the handler's first and
  second \<open>Date.now()\<close>).
\<close>

datatype wl_entry = Plain string | WithAddress string | Malformed

datatype fetch_result = FetchFailed | FetchOk "wl_entry list"

record env =
  gate_now :: int
  fetched :: fetch_result
  uuid :: string
  now :: int
  now2 :: int

text \<open>Responses: an error with its status and message, or the payload of a success.\<close>

record summary =
  sum_id :: string
  sum_name :: string
  sum_supportCount :: int
  sum_totalSignal :: int

record annotated_signal =
  a_signal :: signal
  projectName :: "string option"
  projectCategory :: "string option"

datatype response =
    Err nat string
  | RProject nat project
  | RDeleted string
  | RSignal nat signal summary
  | RRemoved string
  | RList "project list" nat int int
  | RDetail project "signal list"
  | RSupporters string nat int "annotated_signal list"
  | RSearch "project list"

section \<open>Allow-list cache and access gate\<close>

definition WHITELIST_CACHE_TTL :: int where
  "WHITELIST_CACHE_TTL = 5 * 60 * 1000"

text \<open>
  \<open>(e.address || e).toLowerCase()\<close> for one entry of the fetched list: a plain string, an
  object with an \<open>address\<close> string, or anything else. \<open>None\<close> is the \<open>TypeError\<close> raised
  when the value reached is not a string.
\<close>

definition entry_address :: "wl_entry \<Rightarrow> string option" where
  "entry_address e =
     (case e of
        Plain s \<Rightarrow> Some (toLowerCase s)
      | WithAddress a \<Rightarrow> (if a \<noteq> [] then Some (toLowerCase a) else None)
      | Malformed \<Rightarrow> None)"

fun map_entries :: "wl_entry list \<Rightarrow> string list option" where
  "map_entries [] = Some []"
| "map_entries (e # es) =
     (case entry_address e of
        None \<Rightarrow> None
      | Some a \<Rightarrow> (case map_entries es of None \<Rightarrow> None | Some as \<Rightarrow> Some (a # as)))"

text \<open>
  The body of the \<open>try\<close> block: \<open>None\<close> when \<open>fetch\<close>, \<open>res.json()\<close> or the mapping
  throws, otherwise the new set.
\<close>

definition refresh :: "fetch_result \<Rightarrow> string set option" where
  "refresh f =
     (case f of
        FetchFailed \<Rightarrow> None
      | FetchOk data \<Rightarrow> (case map_entries data of None \<Rightarrow> None | Some as \<Rightarrow> Some (set as)))"

definition fetchWhitelist :: "state \<Rightarrow> int \<Rightarrow> fetch_result \<Rightarrow> string set \<times> state" where
  "fetchWhitelist s now_ms f =
     (case whitelistCache s of
        Some cache \<Rightarrow>
          (if now_ms - whitelistCacheTime s < WHITELIST_CACHE_TTL then (cache, s)
           else (case refresh f of
                   Some fresh \<Rightarrow>
                     (fresh, s\<lparr>whitelistCache := Some fresh, whitelistCacheTime := now_ms,
                               fetchCalls := fetchCalls s + 1\<rparr>)
                 | None \<Rightarrow> (cache, s\<lparr>fetchCalls := fetchCalls s + 1\<rparr>)))
      | None \<Rightarrow>
          (case refresh f of
             Some fresh \<Rightarrow>
               (fresh, s\<lparr>whitelistCache := Some fresh, whitelistCacheTime := now_ms,
                         fetchCalls := fetchCalls s + 1\<rparr>)
           | None \<Rightarrow> ({}, s\<lparr>fetchCalls := fetchCalls s + 1\<rparr>)))"

text \<open>
  \<open>requireWhitelist(addressField)\<close>: the candidate address is the first truthy value of
  the \<open>||\<close> chain. The result is \<open>None\<close> when \<open>next()\<close> is called, otherwise the response
  sent; the state may change through the cache.
\<close>

definition gate_candidate :: "(body \<Rightarrow> string option) \<Rightarrow> body \<Rightarrow> string option" where
  "gate_candidate addressField b =
     js_or (js_or (js_or (js_or (js_or (addressField b) (b_creator b)) (b_participant b))
                  (b_sender b)) (b_from b)) (b_address b)"

definition requireWhitelist ::
  "(body \<Rightarrow> string option) \<Rightarrow> state \<Rightarrow> env \<Rightarrow> body \<Rightarrow> response option \<times> state" where
  "requireWhitelist addressField s e b =
     (case gate_candidate addressField b of
        None \<Rightarrow> (Some (Err 400 ''Address required''), s)
      | Some addr \<Rightarrow>
          (if addr = [] then (Some (Err 400 ''Address required''), s)
           else (case fetchWhitelist s (gate_now e) (fetched e) of
                   (whitelist, s') \<Rightarrow>
                     (if toLowerCase addr \<notin> whitelist
                      then (Some (Err 403 ''Invite-only. Tag @owockibot on X to request access.''), s')
                      else (None, s')))))"

text \<open>A gated route: the handler runs only when the gate calls \<open>next()\<close>.\<close>

definition gated ::
  "state \<Rightarrow> env \<Rightarrow> body \<Rightarrow> (state \<Rightarrow> state \<times> response) \<Rightarrow> state \<times> response" where
  "gated s e b handler =
     (case requireWhitelist b_address s e b of
        (Some r, s') \<Rightarrow> (s', r)
      | (None, s') \<Rightarrow> handler s')"


section \<open>Project store\<close>

definition string_of :: "string option \<Rightarrow> string" where
  "string_of v = (case v of None \<Rightarrow> [] | Some x \<Rightarrow> x)"

text \<open>\<open>v || null\<close> for a nullable string field of the body.\<close>

definition or_null :: "string option option \<Rightarrow> string option" where
  "or_null v = (case v of Some (Some x) \<Rightarrow> (if x = [] then None else Some x) | _ \<Rightarrow> None)"

text \<open>
  \<open>ethers.isAddress\<close> belongs to a library, not to the repository: the handlers take it
  as the parameter \<open>isAddress\<close>.
\<close>

definition createProject ::
  "(string \<Rightarrow> bool) \<Rightarrow> env \<Rightarrow> body \<Rightarrow> state \<Rightarrow> state \<times> response" where
  "createProject isAddress e b s =
     (if \<not> truthy (b_name b) \<or> \<not> truthy (b_owner b)
      then (s, Err 400 ''name and owner address required'')
      else if \<not> isAddress (string_of (b_owner b))
      then (s, Err 400 ''Invalid owner address'')
      else
        let projectCategory =
              (if string_of (b_category b) \<in> set categories then string_of (b_category b)
               else ''other'');
            project = \<lparr>p_id = uuid e,
                       name = string_of (b_name b),
                       description = string_of (b_description b),
                       url = or_null (b_url b),
                       logo = or_null (b_logo b),
                       category = projectCategory,
                       tags = (case b_tags b of None \<Rightarrow> [] | Some ts \<Rightarrow> js_slice 0 10 ts),
                       owner = toLowerCase (string_of (b_owner b)),
                       supportCount = 0,
                       totalSignal = 0,
                       createdAt = now e,
                       updatedAt = now2 e\<rparr>
        in (s\<lparr>projects := Map_set (projects s) (p_id project) project\<rparr>, RProject 201 project))"

record list_query =
  q_category :: "string option"
  q_tag :: "string option"
  q_minSupport :: "string option"
  q_sort :: "string option"
  q_limit :: "string option"
  q_offset :: "string option"

definition list_filtered :: "state \<Rightarrow> list_query \<Rightarrow> project list" where
  "list_filtered s q =
     (let results = Map_values (projects s);
          results = (if truthy (q_category q)
                     then filter (\<lambda>p. category p = string_of (q_category q)) results
                     else results);
          results = (if truthy (q_tag q)
                     then filter (\<lambda>p. toLowerCase (string_of (q_tag q)) \<in> set (tags p)) results
                     else results);
          results = (if truthy (q_minSupport q)
                     then filter (\<lambda>p. case parseInt_opt (q_minSupport q) of
                                         None \<Rightarrow> False
                                       | Some m \<Rightarrow> supportCount p \<ge> m) results
                     else results)
      in results)"

definition list_sorted :: "string option \<Rightarrow> project list \<Rightarrow> project list" where
  "list_sorted sort_in results =
     (if sort_in = Some ''support'' then sort_desc supportCount results
      else if sort_in = Some ''signal'' then sort_desc totalSignal results
      else if sort_in = Some ''oldest'' then sort_asc createdAt results
      else sort_desc createdAt results)"

definition listProjects :: "state \<Rightarrow> list_query \<Rightarrow> response" where
  "listProjects s q =
     (let results = list_sorted (q_sort q) (list_filtered s q);
          start = num_or (parseInt_opt (q_offset q)) 0;
          count = min (num_or (parseInt_opt (q_limit q)) 50) 100;
          total = length results
      in RList (js_slice start (start + count) results) total start count)"

definition getProject :: "state \<Rightarrow> string \<Rightarrow> response" where
  "getProject s ident =
     (case Map_get (projects s) ident of
        None \<Rightarrow> Err 404 ''Project not found''
      | Some project \<Rightarrow>
          RDetail project
            (js_slice 0 20
               (sort_desc s_createdAt
                  (filter (\<lambda>sg. projectId sg = p_id project) (Map_values (signals s))))))"

definition owner_mismatch :: "body \<Rightarrow> project \<Rightarrow> bool" where
  "owner_mismatch b project =
     (truthy (b_owner b) \<and> toLowerCase (string_of (b_owner b)) \<noteq> owner project)"

text \<open>
  The update and signal handlers change the object they got from the \<open>Map\<close> and store it
  again under its own \<open>id\<close>; the model writes the changed record at that key.
\<close>

definition apply_update :: "env \<Rightarrow> body \<Rightarrow> project \<Rightarrow> project" where
  "apply_update e b project =
     (let project = (if truthy (b_name b) then project\<lparr>name := string_of (b_name b)\<rparr>
                     else project);
          project = (case b_description b of None \<Rightarrow> project
                     | Some d \<Rightarrow> project\<lparr>description := d\<rparr>);
          project = (case b_url b of None \<Rightarrow> project | Some u \<Rightarrow> project\<lparr>url := u\<rparr>);
          project = (case b_logo b of None \<Rightarrow> project | Some l \<Rightarrow> project\<lparr>logo := l\<rparr>);
          project = (if truthy (b_category b) \<and> string_of (b_category b) \<in> set categories
                     then project\<lparr>category := string_of (b_category b)\<rparr> else project);
          project = (case b_tags b of None \<Rightarrow> project
                     | Some ts \<Rightarrow> project\<lparr>tags := js_slice 0 10 ts\<rparr>)
      in project\<lparr>updatedAt := now e\<rparr>)"

definition updateProject :: "string \<Rightarrow> env \<Rightarrow> body \<Rightarrow> state \<Rightarrow> state \<times> response" where
  "updateProject ident e b s =
     (case Map_get (projects s) ident of
        None \<Rightarrow> (s, Err 404 ''Project not found'')
      | Some project \<Rightarrow>
          (if owner_mismatch b project then (s, Err 403 ''Not project owner'')
           else let project' = apply_update e b project
                in (s\<lparr>projects := Map_set (projects s) (p_id project') project'\<rparr>,
                    RProject 200 project')))"

definition deleteProject :: "string \<Rightarrow> body \<Rightarrow> state \<Rightarrow> state \<times> response" where
  "deleteProject ident b s =
     (case Map_get (projects s) ident of
        None \<Rightarrow> (s, Err 404 ''Project not found'')
      | Some project \<Rightarrow>
          (if owner_mismatch b project then (s, Err 403 ''Not project owner'')
           else let doomed = map fst (filter (\<lambda>kv. projectId (snd kv) = p_id project) (signals s))
                in (s\<lparr>projects := Map_delete (projects s) (p_id project),
                      signals := foldl Map_delete (signals s) doomed\<rparr>,
                    RDeleted (p_id project))))"

definition search_matches :: "string \<Rightarrow> project \<Rightarrow> bool" where
  "search_matches query p =
     (includes_str (toLowerCase (name p)) query \<or>
      includes_str (toLowerCase (description p)) query \<or>
      list_ex (\<lambda>t. includes_str t query) (tags p))"

definition search :: "state \<Rightarrow> string option \<Rightarrow> string option \<Rightarrow> response" where
  "search s q limit_in =
     (if \<not> truthy q \<or> length (string_of q) < 2
      then Err 400 ''Query must be at least 2 characters''
      else let query = toLowerCase (string_of q)
           in RSearch
                (js_slice 0 (num_or (parseInt_opt limit_in) 20)
                   (sort_desc supportCount
                      (filter (search_matches query) (Map_values (projects s))))))"

section \<open>Signal store\<close>

definition signalAmount :: "string option \<Rightarrow> int" where
  "signalAmount amount_in = max 1 (min 100 (num_or (parseInt_opt amount_in) 1))"

definition find_signal :: "state \<Rightarrow> project \<Rightarrow> string \<Rightarrow> signal option" where
  "find_signal s project addr =
     find (\<lambda>sg. projectId sg = p_id project \<and> address sg = toLowerCase addr)
       (Map_values (signals s))"

definition summary_of :: "project \<Rightarrow> summary" where
  "summary_of project =
     \<lparr>sum_id = p_id project, sum_name = name project,
      sum_supportCount = supportCount project, sum_totalSignal = totalSignal project\<rparr>"

definition postSignal ::
  "(string \<Rightarrow> bool) \<Rightarrow> string \<Rightarrow> env \<Rightarrow> body \<Rightarrow> state \<Rightarrow> state \<times> response" where
  "postSignal isAddress ident e b s =
     (case Map_get (projects s) ident of
        None \<Rightarrow> (s, Err 404 ''Project not found'')
      | Some project \<Rightarrow>
          (if \<not> truthy (b_address b) then (s, Err 400 ''address required'')
           else if \<not> isAddress (string_of (b_address b)) then (s, Err 400 ''Invalid address'')
           else
             (case find_signal s project (string_of (b_address b)) of
                Some existing \<Rightarrow>
                  (let existing' = existing
                         \<lparr>amount := amount existing + signalAmount (b_amount b),
                          message := (if truthy (b_message b) then b_message b
                                      else message existing),
                          s_updatedAt := Some (now e)\<rparr>;
                       project' = project
                         \<lparr>totalSignal := totalSignal project + signalAmount (b_amount b)\<rparr>
                   in (s\<lparr>signals := Map_set (signals s) (s_id existing') existing',
                         projects := Map_set (projects s) (p_id project') project'\<rparr>,
                       RSignal 200 existing' (summary_of project')))
              | None \<Rightarrow>
                  (let signal = \<lparr>s_id = uuid e,
                                 projectId = p_id project,
                                 address = toLowerCase (string_of (b_address b)),
                                 amount = signalAmount (b_amount b),
                                 message = (if truthy (b_message b) then b_message b else None),
                                 s_createdAt = now e,
                                 s_updatedAt = None\<rparr>;
                       project' = project
                         \<lparr>supportCount := supportCount project + 1,
                          totalSignal := totalSignal project + signalAmount (b_amount b)\<rparr>
                   in (s\<lparr>signals := Map_set (signals s) (s_id signal) signal,
                         projects := Map_set (projects s) (p_id project') project'\<rparr>,
                       RSignal 201 signal (summary_of project'))))))"

definition deleteSignal :: "string \<Rightarrow> body \<Rightarrow> state \<Rightarrow> state \<times> response" where
  "deleteSignal ident b s =
     (case Map_get (projects s) ident of
        None \<Rightarrow> (s, Err 404 ''Project not found'')
      | Some project \<Rightarrow>
          (if \<not> truthy (b_address b) then (s, Err 400 ''address required'')
           else
             (case find_signal s project (string_of (b_address b)) of
                None \<Rightarrow> (s, Err 404 ''Signal not found'')
              | Some existing \<Rightarrow>
                  (let project' = project
                         \<lparr>supportCount := max 0 (supportCount project - 1),
                          totalSignal := max 0 (totalSignal project - amount existing)\<rparr>
                   in (s\<lparr>projects := Map_set (projects s) (p_id project') project',
                         signals := Map_delete (signals s) (s_id existing)\<rparr>,
                       RRemoved (s_id existing))))))"

definition annotate :: "state \<Rightarrow> signal \<Rightarrow> annotated_signal" where
  "annotate s sg =
     \<lparr>a_signal = sg,
      projectName = map_option name (Map_get (projects s) (projectId sg)),
      projectCategory = map_option category (Map_get (projects s) (projectId sg))\<rparr>"

definition supporters :: "(string \<Rightarrow> bool) \<Rightarrow> state \<Rightarrow> string \<Rightarrow> response" where
  "supporters isAddress s addr_in =
     (if \<not> isAddress addr_in then Err 400 ''Invalid address''
      else
        let addr = toLowerCase addr_in;
            supporterSignals =
              sort_desc (\<lambda>a. s_createdAt (a_signal a))
                (map (annotate s) (filter (\<lambda>sg. address sg = addr) (Map_values (signals s))))
        in RSupporters addr (length supporterSignals)
             (foldl (\<lambda>acc a. acc + amount (a_signal a)) 0 supporterSignals)
             supporterSignals)"

section \<open>Routes\<close>

datatype request =
    PostProject body
  | PutProject string body
  | DeleteProject string body
  | PostSignal string body
  | DeleteSignal string body
  | GetProjects list_query
  | GetProject string
  | GetSupporters string
  | GetSearch "string option" "string option"

definition handle :: "(string \<Rightarrow> bool) \<Rightarrow> state \<Rightarrow> env \<Rightarrow> request \<Rightarrow> state \<times> response" where
  "handle isAddress s e r =
     (case r of
        PostProject b \<Rightarrow> gated s e b (createProject isAddress e b)
      | PutProject ident b \<Rightarrow> gated s e b (updateProject ident e b)
      | DeleteProject ident b \<Rightarrow> deleteProject ident b s
      | PostSignal ident b \<Rightarrow> gated s e b (postSignal isAddress ident e b)
      | DeleteSignal ident b \<Rightarrow> deleteSignal ident b s
      | GetProjects q \<Rightarrow> (s, listProjects s q)
      | GetProject ident \<Rightarrow> (s, getProject s ident)
      | GetSupporters addr \<Rightarrow> (s, supporters isAddress s addr)
      | GetSearch q limit_in \<Rightarrow> (s, search s q limit_in))"

text \<open>
  \<open>uuidv4()\<close> returns an identifier that is in use in neither store. The reachable states
  are those the routes produce from the empty stores under such identifiers.
\<close>

definition fresh_uuid :: "state \<Rightarrow> env \<Rightarrow> bool" where
  "fresh_uuid s e = (uuid e \<notin> set (Map_keys (projects s)) \<and> uuid e \<notin> set (Map_keys (signals s)))"

inductive reachable :: "(string \<Rightarrow> bool) \<Rightarrow> state \<Rightarrow> bool" for isAddress where
  reachable_init: "reachable isAddress init"
| reachable_step:
    "reachable isAddress s \<Longrightarrow> fresh_uuid s e \<Longrightarrow> reachable isAddress (fst (handle isAddress s e r))"


section \<open>Invariants of the stores\<close>

text \<open>The live signals of a project, in the order of the signal store.\<close>

definition project_signals :: "state \<Rightarrow> string \<Rightarrow> signal list" where
  "project_signals s pid = filter (\<lambda>sg. projectId sg = pid) (Map_values (signals s))"

text \<open>The two denormalised counters of every project agree with the signal store.\<close>

definition counters_ok :: "state \<Rightarrow> bool" where
  "counters_ok s =
     (\<forall>p \<in> set (Map_values (projects s)).
        supportCount p = int (length (project_signals s (p_id p))) \<and>
        totalSignal p = sum_list (map amount (project_signals s (p_id p))))"

text \<open>Keys are unique and every entry is stored under the \<open>id\<close> of its value.\<close>

definition keys_ok :: "state \<Rightarrow> bool" where
  "keys_ok s =
     (distinct (Map_keys (projects s)) \<and> distinct (Map_keys (signals s)) \<and>
      (\<forall>kv \<in> set (projects s). p_id (snd kv) = fst kv) \<and>
      (\<forall>kv \<in> set (signals s). s_id (snd kv) = fst kv))"

text \<open>Every signal references a project of the project store.\<close>

definition refs_ok :: "state \<Rightarrow> bool" where
  "refs_ok s = (\<forall>sg \<in> set (Map_values (signals s)). projectId sg \<in> set (Map_keys (projects s)))"

definition amounts_ok :: "state \<Rightarrow> bool" where
  "amounts_ok s = (\<forall>sg \<in> set (Map_values (signals s)). 1 \<le> amount sg)"

text \<open>At most one live signal for each pair of project and address.\<close>

definition pairs_ok :: "state \<Rightarrow> bool" where
  "pairs_ok s = distinct (map (\<lambda>sg. (projectId sg, address sg)) (Map_values (signals s)))"

text \<open>Stored owners are in lower case.\<close>

definition owners_ok :: "state \<Rightarrow> bool" where
  "owners_ok s = (\<forall>p \<in> set (Map_values (projects s)). toLowerCase (owner p) = owner p)"

definition stores_inv :: "state \<Rightarrow> bool" where
  "stores_inv s =
     (keys_ok s \<and> refs_ok s \<and> amounts_ok s \<and> counters_ok s \<and> pairs_ok s \<and> owners_ok s)"

text \<open>The sum of \<open>g\<close> over the values of a map that satisfy \<open>P\<close>.\<close>

definition agg :: "('v \<Rightarrow> int) \<Rightarrow> ('v \<Rightarrow> bool) \<Rightarrow> ('k, 'v) js_map \<Rightarrow> int" where
  "agg g P m = sum_list (map g (filter P (Map_values m)))"


section \<open>The specification's wording, for comparison with the code\<close>



text \<open>
  The candidate address of the access gate as the specification words it: the first
  non-empty value among the listed body fields.
\<close>

definition gate_fields :: "(body \<Rightarrow> string option) \<Rightarrow> body \<Rightarrow> string option list" where
  "gate_fields addressField b =
     [addressField b, b_creator b, b_participant b, b_sender b, b_from b, b_address b]"

definition first_nonempty :: "string option list \<Rightarrow> string option" where
  "first_nonempty vs = (case find truthy vs of None \<Rightarrow> None | Some v \<Rightarrow> v)"

definition is_error :: "response \<Rightarrow> bool" where
  "is_error r = (case r of Err _ _ \<Rightarrow> True | _ \<Rightarrow> False)"


section \<open>A worked scenario\<close>

text \<open>
  For the examples, \<open>ethers.isAddress\<close> is instantiated by the addresses it accepts
  without a checksum: \<open>0x\<close> and forty hexadecimal digits, the letters all in lower or all
  in upper case.
\<close>

definition isAddress_hex :: "string \<Rightarrow> bool" where
  "isAddress_hex a =
     (length a = 42 \<and> take 2 a = ''0x'' \<and>
      (list_all (\<lambda>c. c \<in> set ''0123456789abcdef'') (drop 2 a) \<or>
       list_all (\<lambda>c. c \<in> set ''0123456789ABCDEF'') (drop 2 a)))"

definition addr_A :: string where
  "addr_A = ''0xAAAAAAAAAAAAAAAAAAAAAAAAAAAAAAAAAAAAAAAA''"

definition addr_a :: string where
  "addr_a = ''0xaaaaaaaaaaaaaaaaaaaaaaaaaaaaaaaaaaaaaaaa''"

definition addr_b :: string where
  "addr_b = ''0xbbbbbbbbbbbbbbbbbbbbbbbbbbbbbbbbbbbbbbbb''"

definition addr_c :: string where
  "addr_c = ''0xcccccccccccccccccccccccccccccccccccccccc''"

definition addr_d :: string where
  "addr_d = ''0xdddddddddddddddddddddddddddddddddddddddd''"

text \<open>
  The allow-list service answers with \<open>addr_A\<close> and \<open>addr_b\<close>; \<open>addr_c\<close>, the owner of
  the project, and \<open>addr_d\<close> are not on the list.
\<close>

definition env0 :: "string \<Rightarrow> int \<Rightarrow> env" where
  "env0 u t = \<lparr>gate_now = t, fetched = FetchOk [Plain addr_A, WithAddress addr_b], uuid = u,
               now = t, now2 = t\<rparr>"

definition body_create :: body where
  "body_create = empty_body\<lparr>b_address := Some addr_a, b_name := Some ''Foo'',
                             b_owner := Some addr_c, b_tags := Some [''DeFi'']\<rparr>"

definition body_signal :: "string \<Rightarrow> string \<Rightarrow> body" where
  "body_signal a n = empty_body\<lparr>b_address := Some a, b_amount := Some n\<rparr>"

definition st1 :: state where
  "st1 = fst (handle isAddress_hex init (env0 ''p1'' 1000) (PostProject body_create))"

definition st2 :: state where
  "st2 = fst (handle isAddress_hex st1 (env0 ''s1'' 2000) (PostSignal ''p1'' (body_signal addr_A ''5'')))"

definition st3 :: state where
  "st3 = fst (handle isAddress_hex st2 (env0 ''s2'' 3000) (PostSignal ''p1'' (body_signal addr_a ''3'')))"



definition body_owner :: "string \<Rightarrow> body" where
  "body_owner a = empty_body\<lparr>b_owner := Some a\<rparr>"

definition st4 :: state where
  "st4 = fst (handle isAddress_hex st3 (env0 ''u4'' 4000) (DeleteProject ''p1'' (body_owner addr_c)))"


section \<open>Lemmas about \<open>Map\<close> objects\<close>

lemma Map_keys_Map_set_list:
  "Map_keys (Map_set m k v) = (if k \<in> set (Map_keys m) then Map_keys m else Map_keys m @ [k])"
  by (induction m) (force simp: Map_keys_def)+

lemma Map_keys_Map_set: "set (Map_keys (Map_set m k v)) = insert k (set (Map_keys m))"
  by (auto simp: Map_keys_Map_set_list)

lemma Map_set_fresh: "k \<notin> set (Map_keys m) \<Longrightarrow> Map_set m k v = m @ [(k, v)]"
  by (induction m) (auto simp: Map_keys_def)

lemma Map_set_distinct: "distinct (Map_keys m) \<Longrightarrow> distinct (Map_keys (Map_set m k v))"
  by (simp add: Map_keys_Map_set_list)

lemma Map_set_present:
  "distinct (Map_keys m) \<Longrightarrow> (k, v0) \<in> set m \<Longrightarrow>
   set (Map_set m k v) = insert (k, v) (set m - {(k, v0)})"
proof (induction m)
  case Nil
  then show ?case by simp
next
  case (Cons kv m)
  show ?case
  proof (cases "fst kv = k")
    case True
    with Cons.prems have "kv = (k, v0)"
      by (cases kv) (auto simp: Map_keys_def rev_image_eqI)
    moreover from Cons.prems True have "(k, v0) \<notin> set m"
      by (cases kv) (auto simp: Map_keys_def rev_image_eqI)
    ultimately show ?thesis by auto
  next
    case False
    with Cons.prems have "(k, v0) \<in> set m" "distinct (Map_keys m)"
      by (auto simp: Map_keys_def)
    from Cons.IH [OF this(2) this(1)] False show ?thesis
      by (cases kv) auto
  qed
qed

lemma Map_get_mem: "Map_get m k = Some v \<Longrightarrow> (k, v) \<in> set m"
  by (simp add: Map_get_def map_of_SomeD)

lemma Map_get_key: "Map_get m k = Some v \<Longrightarrow> k \<in> set (Map_keys m)"
  by (auto simp: Map_keys_def dest!: Map_get_mem intro: rev_image_eqI)

lemma Map_get_None: "Map_get m k = None \<longleftrightarrow> k \<notin> set (Map_keys m)"
  by (simp add: Map_get_def Map_keys_def map_of_eq_None_iff)

lemma Map_get_distinct: "distinct (Map_keys m) \<Longrightarrow> (k, v) \<in> set m \<Longrightarrow> Map_get m k = Some v"
  by (simp add: Map_get_def Map_keys_def)

lemma Map_delete_set: "set (Map_delete m k) = {kv \<in> set m. fst kv \<noteq> k}"
  by (auto simp: Map_delete_def)

lemma Map_delete_distinct: "distinct (Map_keys m) \<Longrightarrow> distinct (Map_keys (Map_delete m k))"
  by (simp add: Map_delete_def Map_keys_def distinct_map_filter)

lemma Map_delete_keys: "set (Map_keys (Map_delete m k)) = set (Map_keys m) - {k}"
  by (auto simp: Map_delete_def Map_keys_def)

lemma foldl_Map_delete: "foldl Map_delete m ks = filter (\<lambda>kv. fst kv \<notin> set ks) m"
proof (induction ks arbitrary: m)
  case Nil
  then show ?case by simp
next
  case (Cons k ks)
  have "foldl Map_delete m (k # ks) = filter (\<lambda>kv. fst kv \<notin> set ks) (Map_delete m k)"
    using Cons.IH [of "Map_delete m k"] by simp
  also have "\<dots> = filter (\<lambda>kv. fst kv \<notin> set (k # ks)) m"
    by (auto simp: Map_delete_def intro: filter_cong)
  finally show ?case .
qed


lemma agg_length: "agg (\<lambda>_. 1) P m = int (length (filter P (Map_values m)))"
  by (simp add: agg_def sum_list_triv)

lemma agg_append: "agg g P (m @ [(k, v)]) = agg g P m + (if P v then g v else 0)"
  by (simp add: agg_def Map_values_def)

lemma agg_Map_set:
  "distinct (Map_keys m) \<Longrightarrow> (k, v0) \<in> set m \<Longrightarrow>
   agg g P (Map_set m k v) = agg g P m - (if P v0 then g v0 else 0) + (if P v then g v else 0)"
proof (induction m)
  case Nil
  then show ?case by simp
next
  case (Cons kv m)
  show ?case
  proof (cases "fst kv = k")
    case True
    with Cons.prems have "kv = (k, v0)"
      by (cases kv) (auto simp: Map_keys_def rev_image_eqI)
    then show ?thesis by (simp add: agg_def Map_values_def)
  next
    case False
    with Cons.prems have "(k, v0) \<in> set m" "distinct (Map_keys m)"
      by (auto simp: Map_keys_def)
    from Cons.IH [OF this(2) this(1)] False show ?thesis
      by (cases kv) (simp add: agg_def Map_values_def)
  qed
qed

lemma agg_Map_delete:
  "distinct (Map_keys m) \<Longrightarrow> (k, v0) \<in> set m \<Longrightarrow>
   agg g P (Map_delete m k) = agg g P m - (if P v0 then g v0 else 0)"
proof (induction m)
  case Nil
  then show ?case by simp
next
  case (Cons kv m)
  show ?case
  proof (cases "fst kv = k")
    case True
    with Cons.prems have kv: "kv = (k, v0)" and "k \<notin> set (Map_keys m)"
      by (cases kv; auto simp: Map_keys_def rev_image_eqI)+
    then have "Map_delete m k = m"
      by (auto simp: Map_delete_def Map_keys_def filter_id_conv)
    with kv show ?thesis by (simp add: agg_def Map_values_def Map_delete_def)
  next
    case False
    with Cons.prems have "(k, v0) \<in> set m" "distinct (Map_keys m)"
      by (auto simp: Map_keys_def)
    from Cons.IH [OF this(2) this(1)] False show ?thesis
      by (cases kv) (simp add: agg_def Map_values_def Map_delete_def)
  qed
qed

lemma agg_filter_irrelevant:
  "(\<And>kv. kv \<in> set m \<Longrightarrow> P (snd kv) \<Longrightarrow> Q kv) \<Longrightarrow> agg g P (filter Q m) = agg g P m"
  by (induction m) (auto simp: agg_def Map_values_def)

lemma agg_none:
  "(\<And>kv. kv \<in> set m \<Longrightarrow> \<not> P (snd kv)) \<Longrightarrow> agg g P m = 0"
  by (induction m) (auto simp: agg_def Map_values_def)

section \<open>The invariants hold in every reachable state\<close>

lemma toLowerCase_char_idem: "toLowerCase_char (toLowerCase_char c) = toLowerCase_char c"
  by (auto simp: toLowerCase_char_def Let_def)

lemma toLowerCase_idem: "toLowerCase (toLowerCase x) = toLowerCase x"
  by (simp add: toLowerCase_def toLowerCase_char_idem)

lemma count_agg:
  "int (length (project_signals s pid)) = agg (\<lambda>_. 1) (\<lambda>sg. projectId sg = pid) (signals s)"
  by (simp add: agg_length project_signals_def)

lemma total_agg:
  "sum_list (map amount (project_signals s pid)) = agg amount (\<lambda>sg. projectId sg = pid) (signals s)"
  by (simp add: agg_def project_signals_def)

lemma Map_set_subset: "set (Map_set m k v) \<subseteq> insert (k, v) (set m)"
  by (induction m) (auto split: if_splits)

lemma Map_values_Map_set_subset: "set (Map_values (Map_set m k v)) \<subseteq> insert v (set (Map_values m))"
  using Map_set_subset [of m k v] by (fastforce simp: Map_values_def)

lemma project_signals_cong: "signals s' = signals s \<Longrightarrow> project_signals s' pid = project_signals s pid"
  by (simp add: project_signals_def)

lemma Map_values_append: "Map_values (m @ [(k, v)]) = Map_values m @ [v]"
  by (simp add: Map_values_def)

lemma Map_keys_append: "Map_keys (m @ [(k, v)]) = Map_keys m @ [k]"
  by (simp add: Map_keys_def)

lemma Map_values_mem: "v \<in> set (Map_values m) \<longleftrightarrow> (\<exists>k. (k, v) \<in> set m)"
  by (force simp: Map_values_def)

lemma Map_keys_mem: "k \<in> set (Map_keys m) \<longleftrightarrow> (\<exists>v. (k, v) \<in> set m)"
  by (force simp: Map_keys_def)

lemma inv_add_project:
  assumes inv: "stores_inv s" and fresh: "k \<notin> set (Map_keys (projects s))"
    and p: "p_id p = k" "supportCount p = 0" "totalSignal p = 0" "toLowerCase (owner p) = owner p"
  shows "stores_inv (s\<lparr>projects := Map_set (projects s) k p\<rparr>)"
proof -
  let ?s' = "s\<lparr>projects := Map_set (projects s) k p\<rparr>"
  have ps: "projects ?s' = projects s @ [(k, p)]"
    using fresh by (simp add: Map_set_fresh)
  have sg: "signals ?s' = signals s" by simp
  have none: "project_signals s k = []"
    using inv fresh
    by (auto simp: stores_inv_def refs_ok_def project_signals_def filter_empty_conv)
  have "keys_ok ?s'"
    using inv fresh p(1) unfolding stores_inv_def keys_ok_def ps sg
    by (auto simp: Map_keys_append)
  moreover have "refs_ok ?s'"
    using inv unfolding stores_inv_def refs_ok_def ps sg by (auto simp: Map_keys_append)
  moreover have "amounts_ok ?s'"
    using inv unfolding stores_inv_def amounts_ok_def sg by simp
  moreover have "counters_ok ?s'"
    using inv p none unfolding stores_inv_def counters_ok_def ps project_signals_cong [OF sg]
    by (auto simp: Map_values_append)
  moreover have "pairs_ok ?s'"
    using inv unfolding stores_inv_def pairs_ok_def sg by simp
  moreover have "owners_ok ?s'"
    using inv p(4) unfolding stores_inv_def owners_ok_def ps by (auto simp: Map_values_append)
  ultimately show ?thesis by (simp add: stores_inv_def)
qed


lemma counters_ok_agg:
  "counters_ok s \<longleftrightarrow>
     (\<forall>kv \<in> set (projects s).
        supportCount (snd kv) = agg (\<lambda>_. 1) (\<lambda>sg. projectId sg = p_id (snd kv)) (signals s) \<and>
        totalSignal (snd kv) = agg amount (\<lambda>sg. projectId sg = p_id (snd kv)) (signals s))"
  unfolding counters_ok_def count_agg total_agg by (fastforce simp: Map_values_mem)

lemma Map_set_entry_cases:
  assumes "distinct (Map_keys m)" and "(k, v0) \<in> set m" and "(k', v') \<in> set (Map_set m k v)"
  shows "(k' = k \<and> v' = v) \<or> (k' \<noteq> k \<and> (k', v') \<in> set m)"
proof -
  from assms(3) have "(k', v') \<in> insert (k, v) (set m - {(k, v0)})"
    using Map_set_present [OF assms(1,2)] by simp
  moreover have "v'' = v0" if "(k, v'') \<in> set m" for v''
    using that assms(1,2) by (metis Map_get_distinct option.inject)
  ultimately show ?thesis by auto
qed

lemma Map_keys_Map_set_present:
  "(k, v0) \<in> set m \<Longrightarrow> Map_keys (Map_set m k v) = Map_keys m"
  by (auto simp: Map_keys_Map_set_list Map_keys_mem)

text \<open>Replacing a stored project by one with the same id, while the signal store changes.\<close>

lemma counters_replace:
  assumes keys: "keys_ok s" and cnt: "counters_ok s"
    and mem: "(k, p) \<in> set (projects s)"
    and ps': "projects s' = Map_set (projects s) k p'"
    and id': "p_id p' = k"
    and c': "supportCount p' = agg (\<lambda>_. 1) (\<lambda>sg. projectId sg = k) (signals s')"
    and t': "totalSignal p' = agg amount (\<lambda>sg. projectId sg = k) (signals s')"
    and others: "\<And>pid g. pid \<noteq> k \<Longrightarrow>
        agg g (\<lambda>sg. projectId sg = pid) (signals s') = agg g (\<lambda>sg. projectId sg = pid) (signals s)"
  shows "counters_ok s'"
  unfolding counters_ok_agg
proof
  fix kv assume "kv \<in> set (projects s')"
  then have kv: "(fst kv, snd kv) \<in> set (Map_set (projects s) k p')"
    by (simp add: ps')
  from keys have d: "distinct (Map_keys (projects s))" by (simp add: keys_ok_def)
  from Map_set_entry_cases [OF d mem kv]
  show "supportCount (snd kv) = agg (\<lambda>_. 1) (\<lambda>sg. projectId sg = p_id (snd kv)) (signals s') \<and>
        totalSignal (snd kv) = agg amount (\<lambda>sg. projectId sg = p_id (snd kv)) (signals s')"
  proof
    assume "fst kv = k \<and> snd kv = p'"
    then show ?thesis using id' c' t' by simp
  next
    assume a: "fst kv \<noteq> k \<and> (fst kv, snd kv) \<in> set (projects s)"
    then have "p_id (snd kv) = fst kv" using keys by (auto simp: keys_ok_def)
    with a have ne: "p_id (snd kv) \<noteq> k" by simp
    from a cnt have "supportCount (snd kv) = agg (\<lambda>_. 1) (\<lambda>sg. projectId sg = p_id (snd kv)) (signals s)"
      "totalSignal (snd kv) = agg amount (\<lambda>sg. projectId sg = p_id (snd kv)) (signals s)"
      unfolding counters_ok_agg by auto
    then show ?thesis by (simp add: others [OF ne])
  qed
qed

lemma keys_replace_project:
  assumes keys: "keys_ok s" and mem: "(k, p) \<in> set (projects s)"
    and ps': "projects s' = Map_set (projects s) k p'" and id': "p_id p' = k"
    and sk: "distinct (Map_keys (signals s'))" "\<forall>kv \<in> set (signals s'). s_id (snd kv) = fst kv"
  shows "keys_ok s'"
proof -
  have "p_id (snd kv) = fst kv" if "kv \<in> set (projects s')" for kv
    using that Map_set_subset [of "projects s" k p'] keys id' unfolding ps' keys_ok_def by auto
  moreover have "distinct (Map_keys (projects s'))"
    using keys unfolding ps' keys_ok_def by (simp add: Map_set_distinct)
  ultimately show ?thesis using sk by (simp add: keys_ok_def)
qed

lemma owners_replace_project:
  assumes own: "owners_ok s" and ps': "projects s' = Map_set (projects s) k p'"
    and low: "toLowerCase (owner p') = owner p'"
  shows "owners_ok s'"
  using own low Map_values_Map_set_subset [of "projects s" k p'] unfolding owners_ok_def ps'
  by auto

lemma inv_update_project:
  assumes inv: "stores_inv s" and get: "Map_get (projects s) ident = Some p"
    and p': "p_id p' = p_id p" "supportCount p' = supportCount p" "totalSignal p' = totalSignal p"
      "owner p' = owner p"
  shows "stores_inv (s\<lparr>projects := Map_set (projects s) (p_id p') p'\<rparr>)"
proof -
  let ?s' = "s\<lparr>projects := Map_set (projects s) (p_id p') p'\<rparr>"
  from get have mem0: "(ident, p) \<in> set (projects s)" by (rule Map_get_mem)
  with inv have idp: "p_id p = ident" by (auto simp: stores_inv_def keys_ok_def)
  with mem0 p'(1) have mem: "(p_id p', p) \<in> set (projects s)" by simp
  have ps: "projects ?s' = Map_set (projects s) (p_id p') p'" by simp
  have sg: "signals ?s' = signals s" by simp
  from inv mem have cp: "supportCount p = agg (\<lambda>_. 1) (\<lambda>sg. projectId sg = p_id p) (signals s)"
    "totalSignal p = agg amount (\<lambda>sg. projectId sg = p_id p) (signals s)"
    unfolding stores_inv_def counters_ok_agg by auto
  have "keys_ok ?s'"
    using inv by (intro keys_replace_project [OF _ mem ps]) (auto simp: stores_inv_def keys_ok_def)
  moreover have "refs_ok ?s'"
    using inv unfolding stores_inv_def refs_ok_def ps sg
    by (simp add: Map_keys_Map_set_present [OF mem])
  moreover have "amounts_ok ?s'"
    using inv unfolding stores_inv_def amounts_ok_def sg by simp
  moreover have "counters_ok ?s'"
    using inv cp p' by (intro counters_replace [OF _ _ mem ps]) (auto simp: stores_inv_def)
  moreover have "pairs_ok ?s'"
    using inv unfolding stores_inv_def pairs_ok_def sg by simp
  moreover have "owners_ok ?s'"
  proof (rule owners_replace_project [OF _ ps])
    show "owners_ok s" using inv by (simp add: stores_inv_def)
    from inv mem show "toLowerCase (owner p') = owner p'"
      unfolding stores_inv_def owners_ok_def p'(4) by (auto simp: Map_values_mem)
  qed
  ultimately show ?thesis by (simp add: stores_inv_def)
qed


lemma agg_nonneg: "(\<And>v. v \<in> set (Map_values m) \<Longrightarrow> 0 \<le> g v) \<Longrightarrow> 0 \<le> agg g P m"
  unfolding agg_def by (rule sum_list_nonneg) auto

lemma Map_set_map_same:
  "distinct (Map_keys m) \<Longrightarrow> (k, v0) \<in> set m \<Longrightarrow> f v = f v0 \<Longrightarrow>
   map f (Map_values (Map_set m k v)) = map f (Map_values m)"
proof (induction m)
  case Nil
  then show ?case by simp
next
  case (Cons kv m)
  show ?case
  proof (cases "fst kv = k")
    case True
    with Cons.prems have "kv = (k, v0)"
      by (cases kv) (auto simp: Map_keys_def rev_image_eqI)
    with Cons.prems(3) show ?thesis by (simp add: Map_values_def)
  next
    case False
    with Cons.prems have "(k, v0) \<in> set m" "distinct (Map_keys m)"
      by (auto simp: Map_keys_def)
    from Cons.IH [OF this(2) this(1) Cons.prems(3)] False show ?thesis
      by (cases kv) (simp add: Map_values_def)
  qed
qed

lemma doomed_filter:
  assumes "distinct (Map_keys m)"
  shows "foldl Map_delete m (map fst (filter (\<lambda>kv. Q (snd kv)) m)) = filter (\<lambda>kv. \<not> Q (snd kv)) m"
proof -
  have "fst kv \<in> set (map fst (filter (\<lambda>kv. Q (snd kv)) m)) \<longleftrightarrow> Q (snd kv)"
    if "kv \<in> set m" for kv
  proof
    assume "fst kv \<in> set (map fst (filter (\<lambda>kv. Q (snd kv)) m))"
    then obtain kv' where kv': "kv' \<in> set m" "Q (snd kv')" "fst kv' = fst kv" by auto
    with that assms have "kv' = kv"
      unfolding Map_keys_def by (metis distinct_map inj_on_def)
    with kv' show "Q (snd kv)" by simp
  next
    assume "Q (snd kv)"
    with that show "fst kv \<in> set (map fst (filter (\<lambda>kv. Q (snd kv)) m))" by auto
  qed
  then have "filter (\<lambda>kv. fst kv \<notin> set (map fst (filter (\<lambda>kv. Q (snd kv)) m))) m =
             filter (\<lambda>kv. \<not> Q (snd kv)) m"
    by (intro filter_cong) simp_all
  then show ?thesis
    unfolding foldl_Map_delete .
qed

lemma find_signal_Some:
  "find_signal s p a = Some ex \<Longrightarrow>
   ex \<in> set (Map_values (signals s)) \<and> projectId ex = p_id p \<and> address ex = toLowerCase a"
  unfolding find_signal_def find_Some_iff by auto

lemma find_signal_None:
  "find_signal s p a = None \<Longrightarrow> sg \<in> set (Map_values (signals s)) \<Longrightarrow>
   \<not> (projectId sg = p_id p \<and> address sg = toLowerCase a)"
  unfolding find_signal_def find_None_iff by auto

lemma stored_project:
  assumes "stores_inv s" and "Map_get (projects s) ident = Some p"
  shows "p_id p = ident" and "(p_id p, p) \<in> set (projects s)"
    and "supportCount p = agg (\<lambda>_. 1) (\<lambda>sg. projectId sg = p_id p) (signals s)"
    and "totalSignal p = agg amount (\<lambda>sg. projectId sg = p_id p) (signals s)"
    and "toLowerCase (owner p) = owner p"
proof -
  from assms(2) have mem0: "(ident, p) \<in> set (projects s)" by (rule Map_get_mem)
  with assms(1) show idp: "p_id p = ident" by (auto simp: stores_inv_def keys_ok_def)
  with mem0 show mem: "(p_id p, p) \<in> set (projects s)" by simp
  from assms(1) mem show "supportCount p = agg (\<lambda>_. 1) (\<lambda>sg. projectId sg = p_id p) (signals s)"
    "totalSignal p = agg amount (\<lambda>sg. projectId sg = p_id p) (signals s)"
    unfolding stores_inv_def counters_ok_agg by auto
  from assms(1) mem show "toLowerCase (owner p) = owner p"
    unfolding stores_inv_def owners_ok_def by (auto simp: Map_values_mem)
qed

lemma stored_signal:
  assumes "stores_inv s" and "ex \<in> set (Map_values (signals s))"
  shows "(s_id ex, ex) \<in> set (signals s)" and "1 \<le> amount ex"
    and "projectId ex \<in> set (Map_keys (projects s))"
proof -
  from assms(2) obtain k where "(k, ex) \<in> set (signals s)" by (auto simp: Map_values_mem)
  with assms(1) show "(s_id ex, ex) \<in> set (signals s)"
    by (auto simp: stores_inv_def keys_ok_def)
  from assms show "1 \<le> amount ex" by (auto simp: stores_inv_def amounts_ok_def)
  from assms show "projectId ex \<in> set (Map_keys (projects s))"
    by (auto simp: stores_inv_def refs_ok_def)
qed

text \<open>The shape shared by the three signal mutations: one project record is replaced.\<close>

lemma inv_change:
  assumes inv: "stores_inv s" and get: "Map_get (projects s) ident = Some p"
    and ps': "projects s' = Map_set (projects s) (p_id p) p'"
    and p': "p_id p' = p_id p" "owner p' = owner p"
    and sk: "distinct (Map_keys (signals s'))" "\<forall>kv \<in> set (signals s'). s_id (snd kv) = fst kv"
    and refs: "\<forall>sg \<in> set (Map_values (signals s')). projectId sg \<in> set (Map_keys (projects s))"
    and amts: "\<forall>sg \<in> set (Map_values (signals s')). 1 \<le> amount sg"
    and c': "supportCount p' = agg (\<lambda>_. 1) (\<lambda>sg. projectId sg = p_id p) (signals s')"
    and t': "totalSignal p' = agg amount (\<lambda>sg. projectId sg = p_id p) (signals s')"
    and others: "\<And>pid g. pid \<noteq> p_id p \<Longrightarrow>
        agg g (\<lambda>sg. projectId sg = pid) (signals s') = agg g (\<lambda>sg. projectId sg = pid) (signals s)"
    and pairs: "pairs_ok s'"
  shows "stores_inv s'"
proof -
  note sp = stored_project [OF inv get]
  have mem: "(p_id p, p) \<in> set (projects s)" using sp(2) by simp
  have "keys_ok s'"
    using inv sk p'(1) by (intro keys_replace_project [OF _ mem ps']) (auto simp: stores_inv_def)
  moreover have "refs_ok s'"
    using refs unfolding refs_ok_def ps' by (simp add: Map_keys_Map_set_present [OF mem])
  moreover have "amounts_ok s'"
    using amts by (simp add: amounts_ok_def)
  moreover have "counters_ok s'"
    using inv c' t' others p'(1)
    by (intro counters_replace [OF _ _ mem ps']) (auto simp: stores_inv_def)
  moreover have "owners_ok s'"
    using inv sp(5) p'(2) by (intro owners_replace_project [OF _ ps']) (auto simp: stores_inv_def)
  ultimately show ?thesis using pairs by (simp add: stores_inv_def)
qed


lemma signalAmount_range: "1 \<le> signalAmount a \<and> signalAmount a \<le> 100"
  by (simp add: signalAmount_def)

lemma apply_update_fields:
  "p_id (apply_update e b p) = p_id p" "supportCount (apply_update e b p) = supportCount p"
  "totalSignal (apply_update e b p) = totalSignal p" "owner (apply_update e b p) = owner p"
  by (simp_all add: apply_update_def Let_def split: option.splits)

lemma createProject_inv:
  assumes "stores_inv s" and "fresh_uuid s e"
  shows "stores_inv (fst (createProject isAddress e b s))"
  using assms
  by (auto simp: createProject_def Let_def fresh_uuid_def toLowerCase_idem intro!: inv_add_project)

lemma updateProject_inv:
  assumes "stores_inv s"
  shows "stores_inv (fst (updateProject ident e b s))"
proof (cases "Map_get (projects s) ident")
  case None
  then show ?thesis using assms by (simp add: updateProject_def)
next
  case (Some p)
  from inv_update_project [OF assms Some, of "apply_update e b p"]
  have "stores_inv (s\<lparr>projects := Map_set (projects s) (p_id (apply_update e b p)) (apply_update e b p)\<rparr>)"
    by (simp add: apply_update_fields)
  with Some assms show ?thesis
    by (simp add: updateProject_def Let_def)
qed

lemma deleteProject_inv:
  assumes inv: "stores_inv s"
  shows "stores_inv (fst (deleteProject ident b s))"
proof (cases "Map_get (projects s) ident")
  case None
  then show ?thesis using inv by (simp add: deleteProject_def)
next
  case (Some p)
  show ?thesis
  proof (cases "owner_mismatch b p")
    case True
    with Some show ?thesis using inv by (simp add: deleteProject_def)
  next
    case False
    note sp = stored_project [OF inv Some]
    let ?k = "p_id p"
    let ?sg' = "filter (\<lambda>kv. \<not> projectId (snd kv) = ?k) (signals s)"
    let ?s' = "s\<lparr>projects := Map_delete (projects s) ?k, signals := ?sg'\<rparr>"
    from inv have d: "distinct (Map_keys (signals s))" by (simp add: stores_inv_def keys_ok_def)
    have res: "fst (deleteProject ident b s) = ?s'"
      using Some False doomed_filter [OF d, of "\<lambda>sg. projectId sg = ?k"]
      by (simp add: deleteProject_def Let_def)
    have "keys_ok ?s'"
      using inv unfolding stores_inv_def keys_ok_def
      by (auto simp: Map_delete_def Map_keys_def distinct_map_filter)
    moreover have "refs_ok ?s'"
      using inv unfolding stores_inv_def refs_ok_def
      by (auto simp: Map_delete_keys Map_values_def)
    moreover have "amounts_ok ?s'"
      using inv unfolding stores_inv_def amounts_ok_def by (auto simp: Map_values_def)
    moreover have "counters_ok ?s'"
      unfolding counters_ok_agg
    proof
      fix kv assume "kv \<in> set (projects ?s')"
      then have kv: "kv \<in> set (projects s)" "fst kv \<noteq> ?k" by (auto simp: Map_delete_set)
      with inv have "p_id (snd kv) = fst kv" by (auto simp: stores_inv_def keys_ok_def)
      with kv have ne: "p_id (snd kv) \<noteq> ?k" by simp
      have "agg g (\<lambda>sg. projectId sg = p_id (snd kv)) ?sg' =
            agg g (\<lambda>sg. projectId sg = p_id (snd kv)) (signals s)" for g
        using ne by (intro agg_filter_irrelevant) auto
      moreover from inv kv(1) have
        "supportCount (snd kv) = agg (\<lambda>_. 1) (\<lambda>sg. projectId sg = p_id (snd kv)) (signals s) \<and>
         totalSignal (snd kv) = agg amount (\<lambda>sg. projectId sg = p_id (snd kv)) (signals s)"
        unfolding stores_inv_def counters_ok_agg by auto
      ultimately show
        "supportCount (snd kv) = agg (\<lambda>_. 1) (\<lambda>sg. projectId sg = p_id (snd kv)) (signals ?s') \<and>
         totalSignal (snd kv) = agg amount (\<lambda>sg. projectId sg = p_id (snd kv)) (signals ?s')"
        by simp
    qed
    moreover have "pairs_ok ?s'"
      using inv unfolding stores_inv_def pairs_ok_def Map_values_def
      by (simp add: distinct_map_filter)
    moreover have "owners_ok ?s'"
      using inv unfolding stores_inv_def owners_ok_def
      by (auto simp: Map_values_mem Map_delete_set)
    ultimately show ?thesis unfolding res by (simp add: stores_inv_def)
  qed
qed


lemma inv_accumulate:
  assumes inv: "stores_inv s" and get: "Map_get (projects s) ident = Some p"
    and ex: "ex \<in> set (Map_values (signals s))" "projectId ex = p_id p"
    and a: "1 \<le> a"
    and ex': "s_id ex' = s_id ex" "projectId ex' = projectId ex" "address ex' = address ex"
      "amount ex' = amount ex + a"
    and p': "p_id p' = p_id p" "owner p' = owner p" "supportCount p' = supportCount p"
      "totalSignal p' = totalSignal p + a"
  shows "stores_inv (s\<lparr>signals := Map_set (signals s) (s_id ex) ex',
                        projects := Map_set (projects s) (p_id p) p'\<rparr>)"
proof (rule inv_change [OF inv get _ p'(1,2)])
  let ?sg' = "Map_set (signals s) (s_id ex) ex'"
  let ?s' = "s\<lparr>signals := ?sg', projects := Map_set (projects s) (p_id p) p'\<rparr>"
  note sp = stored_project [OF inv get]
  note ss = stored_signal [OF inv ex(1)]
  from inv have d: "distinct (Map_keys (signals s))" by (simp add: stores_inv_def keys_ok_def)
  have mem: "(s_id ex, ex) \<in> set (signals s)" using ss(1) by simp
  have sub: "set (Map_values ?sg') \<subseteq> insert ex' (set (Map_values (signals s)))"
    by (rule Map_values_Map_set_subset)
  show "projects ?s' = Map_set (projects s) (p_id p) p'" by simp
  show "distinct (Map_keys (signals ?s'))" using d by (simp add: Map_set_distinct)
  show "\<forall>kv \<in> set (signals ?s'). s_id (snd kv) = fst kv"
    using inv ex'(1) Map_set_subset [of "signals s" "s_id ex" ex']
    by (auto simp: stores_inv_def keys_ok_def)
  show "\<forall>sg \<in> set (Map_values (signals ?s')). projectId sg \<in> set (Map_keys (projects s))"
    using sub inv ss(3) ex'(2) by (auto simp: stores_inv_def refs_ok_def)
  show "\<forall>sg \<in> set (Map_values (signals ?s')). 1 \<le> amount sg"
    using sub inv ss(2) ex'(4) a by (auto simp: stores_inv_def amounts_ok_def)
  show "supportCount p' = agg (\<lambda>_. 1) (\<lambda>sg. projectId sg = p_id p) (signals ?s')"
    using p'(3) sp(3) ex(2) ex'(2) by (simp add: agg_Map_set [OF d mem])
  show "totalSignal p' = agg amount (\<lambda>sg. projectId sg = p_id p) (signals ?s')"
    using p'(4) sp(4) ex(2) ex'(2,4) by (simp add: agg_Map_set [OF d mem])
  show "agg g (\<lambda>sg. projectId sg = pid) (signals ?s') = agg g (\<lambda>sg. projectId sg = pid) (signals s)"
    if "pid \<noteq> p_id p" for pid g
    using that ex(2) ex'(2) by (simp add: agg_Map_set [OF d mem])
  show "pairs_ok ?s'"
    using inv ex'(2,3)
    by (simp add: stores_inv_def pairs_ok_def Map_set_map_same [OF d mem])
qed

lemma inv_new_signal:
  assumes inv: "stores_inv s" and get: "Map_get (projects s) ident = Some p"
    and fresh: "k \<notin> set (Map_keys (signals s))"
    and none: "\<forall>x \<in> set (Map_values (signals s)). \<not> (projectId x = p_id p \<and> address x = address sg)"
    and sg: "s_id sg = k" "projectId sg = p_id p" "1 \<le> amount sg"
    and p': "p_id p' = p_id p" "owner p' = owner p" "supportCount p' = supportCount p + 1"
      "totalSignal p' = totalSignal p + amount sg"
  shows "stores_inv (s\<lparr>signals := Map_set (signals s) k sg,
                        projects := Map_set (projects s) (p_id p) p'\<rparr>)"
proof (rule inv_change [OF inv get _ p'(1,2)])
  let ?s' = "s\<lparr>signals := Map_set (signals s) k sg, projects := Map_set (projects s) (p_id p) p'\<rparr>"
  note sp = stored_project [OF inv get]
  have sg': "signals ?s' = signals s @ [(k, sg)]" using fresh by (simp add: Map_set_fresh)
  have pk: "p_id p \<in> set (Map_keys (projects s))" using sp(2) by (auto simp: Map_keys_mem)
  show "projects ?s' = Map_set (projects s) (p_id p) p'" by simp
  show "distinct (Map_keys (signals ?s'))"
    using inv fresh unfolding sg' by (simp add: Map_keys_append stores_inv_def keys_ok_def)
  show "\<forall>kv \<in> set (signals ?s'). s_id (snd kv) = fst kv"
    using inv sg(1) unfolding sg' by (auto simp: stores_inv_def keys_ok_def)
  show "\<forall>x \<in> set (Map_values (signals ?s')). projectId x \<in> set (Map_keys (projects s))"
    using inv sg(2) pk unfolding sg' by (auto simp: Map_values_append stores_inv_def refs_ok_def)
  show "\<forall>x \<in> set (Map_values (signals ?s')). 1 \<le> amount x"
    using inv sg(3) unfolding sg' by (auto simp: Map_values_append stores_inv_def amounts_ok_def)
  show "supportCount p' = agg (\<lambda>_. 1) (\<lambda>sg. projectId sg = p_id p) (signals ?s')"
    using p'(3) sp(3) sg(2) unfolding sg' by (simp add: agg_append)
  show "totalSignal p' = agg amount (\<lambda>sg. projectId sg = p_id p) (signals ?s')"
    using p'(4) sp(4) sg(2) unfolding sg' by (simp add: agg_append)
  show "agg g (\<lambda>sg. projectId sg = pid) (signals ?s') = agg g (\<lambda>sg. projectId sg = pid) (signals s)"
    if "pid \<noteq> p_id p" for pid g
    using that sg(2) unfolding sg' by (simp add: agg_append)
  show "pairs_ok ?s'"
    using inv none sg(2) unfolding pairs_ok_def sg' 
    by (auto simp: Map_values_append stores_inv_def pairs_ok_def)
qed

lemma inv_remove_signal:
  assumes inv: "stores_inv s" and get: "Map_get (projects s) ident = Some p"
    and ex: "ex \<in> set (Map_values (signals s))" "projectId ex = p_id p"
    and p': "p_id p' = p_id p" "owner p' = owner p"
      "supportCount p' = max 0 (supportCount p - 1)"
      "totalSignal p' = max 0 (totalSignal p - amount ex)"
  shows "stores_inv (s\<lparr>projects := Map_set (projects s) (p_id p) p',
                        signals := Map_delete (signals s) (s_id ex)\<rparr>)"
proof (rule inv_change [OF inv get _ p'(1,2)])
  let ?sg' = "Map_delete (signals s) (s_id ex)"
  let ?s' = "s\<lparr>projects := Map_set (projects s) (p_id p) p', signals := ?sg'\<rparr>"
  note sp = stored_project [OF inv get]
  note ss = stored_signal [OF inv ex(1)]
  from inv have d: "distinct (Map_keys (signals s))" by (simp add: stores_inv_def keys_ok_def)
  have sub: "set ?sg' \<subseteq> set (signals s)" by (auto simp: Map_delete_set)
  then have subv: "set (Map_values ?sg') \<subseteq> set (Map_values (signals s))"
    by (auto simp: Map_values_def)
  have amts: "\<forall>x \<in> set (Map_values ?sg'). 1 \<le> amount x"
    using subv inv by (auto simp: stores_inv_def amounts_ok_def)
  show "projects ?s' = Map_set (projects s) (p_id p) p'" by simp
  show "distinct (Map_keys (signals ?s'))" using d by (simp add: Map_delete_distinct)
  show "\<forall>kv \<in> set (signals ?s'). s_id (snd kv) = fst kv"
    using inv sub by (auto simp: stores_inv_def keys_ok_def)
  show "\<forall>x \<in> set (Map_values (signals ?s')). projectId x \<in> set (Map_keys (projects s))"
    using subv inv by (auto simp: stores_inv_def refs_ok_def)
  show "\<forall>x \<in> set (Map_values (signals ?s')). 1 \<le> amount x"
    using amts by simp
  have "0 \<le> agg (\<lambda>_. 1) (\<lambda>sg. projectId sg = p_id p) ?sg'"
    by (rule agg_nonneg) simp
  then show "supportCount p' = agg (\<lambda>_. 1) (\<lambda>sg. projectId sg = p_id p) (signals ?s')"
    using p'(3) sp(3) ex(2) by (simp add: agg_Map_delete [OF d ss(1)])
  have "0 \<le> agg amount (\<lambda>sg. projectId sg = p_id p) ?sg'"
    using amts by (intro agg_nonneg) auto
  then show "totalSignal p' = agg amount (\<lambda>sg. projectId sg = p_id p) (signals ?s')"
    using p'(4) sp(4) ex(2) by (simp add: agg_Map_delete [OF d ss(1)])
  show "agg g (\<lambda>sg. projectId sg = pid) (signals ?s') = agg g (\<lambda>sg. projectId sg = pid) (signals s)"
    if "pid \<noteq> p_id p" for pid g
    using that ex(2) by (simp add: agg_Map_delete [OF d ss(1)])
  show "pairs_ok ?s'"
    using inv unfolding stores_inv_def pairs_ok_def Map_values_def Map_delete_def
    by (simp add: distinct_map_filter)
qed

lemma postSignal_inv:
  assumes inv: "stores_inv s" and fresh: "fresh_uuid s e"
  shows "stores_inv (fst (postSignal isAddress ident e b s))"
proof (cases "Map_get (projects s) ident")
  case None
  then show ?thesis using inv by (simp add: postSignal_def)
next
  case (Some p)
  note get = Some
  show ?thesis
  proof (cases "find_signal s p (string_of (b_address b))")
    case None
    note fn = find_signal_None [OF None]
    show ?thesis
      using get None inv fresh fn signalAmount_range [of "b_amount b"]
      by (auto simp: postSignal_def Let_def fresh_uuid_def intro!: inv_new_signal)
  next
    case (Some ex)
    note fs = find_signal_Some [OF Some]
    show ?thesis
      using get Some inv fs signalAmount_range [of "b_amount b"]
      by (auto simp: postSignal_def Let_def intro!: inv_accumulate)
  qed
qed

lemma deleteSignal_inv:
  assumes inv: "stores_inv s"
  shows "stores_inv (fst (deleteSignal ident b s))"
proof (cases "Map_get (projects s) ident")
  case None
  then show ?thesis using inv by (simp add: deleteSignal_def)
next
  case (Some p)
  note get = Some
  show ?thesis
  proof (cases "find_signal s p (string_of (b_address b))")
    case None
    then show ?thesis using get inv by (simp add: deleteSignal_def)
  next
    case (Some ex)
    note fs = find_signal_Some [OF Some]
    show ?thesis
      using get Some inv fs
      by (auto simp: deleteSignal_def Let_def intro!: inv_remove_signal)
  qed
qed


lemma fetchWhitelist_stores:
  "projects (snd (fetchWhitelist s t f)) = projects s \<and> signals (snd (fetchWhitelist s t f)) = signals s"
  by (simp add: fetchWhitelist_def split: option.splits)

lemma requireWhitelist_stores:
  "projects (snd (requireWhitelist fld s e b)) = projects s \<and>
   signals (snd (requireWhitelist fld s e b)) = signals s"
proof (cases "fetchWhitelist s (gate_now e) (fetched e)")
  case (Pair wl s')
  with fetchWhitelist_stores [of s "gate_now e" "fetched e"]
  have "projects s' = projects s \<and> signals s' = signals s" by simp
  with Pair show ?thesis
    by (simp add: requireWhitelist_def split: option.splits)
qed

lemma stores_inv_cong:
  "projects s' = projects s \<Longrightarrow> signals s' = signals s \<Longrightarrow> stores_inv s' = stores_inv s"
  by (simp add: stores_inv_def keys_ok_def refs_ok_def amounts_ok_def counters_ok_def
      pairs_ok_def owners_ok_def project_signals_def)

lemma fresh_uuid_cong:
  "projects s' = projects s \<Longrightarrow> signals s' = signals s \<Longrightarrow> fresh_uuid s' e = fresh_uuid s e"
  by (simp add: fresh_uuid_def)

lemma gated_cases:
  obtains (rejected) r s' where "gated s e b h = (s', r)" "projects s' = projects s"
      "signals s' = signals s" "requireWhitelist b_address s e b = (Some r, s')"
  | (passed) s' where "gated s e b h = h s'" "projects s' = projects s" "signals s' = signals s"
      "requireWhitelist b_address s e b = (None, s')"
proof (cases "requireWhitelist b_address s e b")
  case (Pair ro s')
  with requireWhitelist_stores [of b_address s e b]
  have st: "projects s' = projects s" "signals s' = signals s" by simp_all
  show ?thesis
  proof (cases ro)
    case None
    with Pair st show ?thesis by (intro passed [of s']) (simp_all add: gated_def)
  next
    case (Some r)
    with Pair st show ?thesis by (intro rejected [of s' r]) (simp_all add: gated_def)
  qed
qed

lemma gated_inv:
  assumes "stores_inv s"
    and "\<And>s'. stores_inv s' \<Longrightarrow> projects s' = projects s \<Longrightarrow> signals s' = signals s \<Longrightarrow>
           stores_inv (fst (h s'))"
  shows "stores_inv (fst (gated s e b h))"
proof (cases rule: gated_cases [of s e b h])
  case (rejected r s')
  then show ?thesis using assms(1) stores_inv_cong [of s' s] by simp
next
  case (passed s')
  then show ?thesis using assms stores_inv_cong [of s' s] by simp
qed

lemma handle_inv:
  assumes inv: "stores_inv s" and fresh: "fresh_uuid s e"
  shows "stores_inv (fst (handle isAddress s e r))"
proof (cases r)
  case (PostProject b)
  have "stores_inv (fst (gated s e b (createProject isAddress e b)))"
  proof (rule gated_inv [OF inv])
    fix s' assume "stores_inv s'" "projects s' = projects s" "signals s' = signals s"
    with fresh show "stores_inv (fst (createProject isAddress e b s'))"
      by (intro createProject_inv) (simp_all add: fresh_uuid_def)
  qed
  with PostProject show ?thesis by (simp add: handle_def)
next
  case (PutProject ident b)
  have "stores_inv (fst (gated s e b (updateProject ident e b)))"
    by (rule gated_inv [OF inv]) (rule updateProject_inv)
  with PutProject show ?thesis by (simp add: handle_def)
next
  case (DeleteProject ident b)
  then show ?thesis using inv by (simp add: handle_def deleteProject_inv)
next
  case (PostSignal ident b)
  have "stores_inv (fst (gated s e b (postSignal isAddress ident e b)))"
  proof (rule gated_inv [OF inv])
    fix s' assume "stores_inv s'" "projects s' = projects s" "signals s' = signals s"
    with fresh show "stores_inv (fst (postSignal isAddress ident e b s'))"
      by (intro postSignal_inv) (simp_all add: fresh_uuid_def)
  qed
  with PostSignal show ?thesis by (simp add: handle_def)
next
  case (DeleteSignal ident b)
  then show ?thesis using inv by (simp add: handle_def deleteSignal_inv)
qed (use inv in \<open>simp_all add: handle_def\<close>)

lemma init_inv: "stores_inv init"
  by (simp add: stores_inv_def keys_ok_def refs_ok_def amounts_ok_def counters_ok_def
      pairs_ok_def owners_ok_def init_def Map_keys_def Map_values_def)

lemma reachable_inv: "reachable isAddress s \<Longrightarrow> stores_inv s"
  by (induction rule: reachable.induct) (simp_all add: init_inv handle_inv)

section \<open>Evaluation of the worked scenario\<close>

lemma addr_lower: "toLowerCase addr_A = addr_a" "toLowerCase addr_a = addr_a" "toLowerCase addr_b = addr_b"
  "toLowerCase addr_c = addr_c" "toLowerCase addr_d = addr_d"
  by code_simp+

lemma addr_valid: "isAddress_hex addr_A" "isAddress_hex addr_a" "isAddress_hex addr_b" "isAddress_hex addr_c" "isAddress_hex addr_d"
  by code_simp+

lemma addr_neq: "addr_a \<noteq> addr_b" "addr_a \<noteq> addr_c" "addr_a \<noteq> addr_d" "addr_b \<noteq> addr_c" "addr_b \<noteq> addr_d" "addr_c \<noteq> addr_d"
  "addr_a \<noteq> []" "addr_A \<noteq> []" "addr_b \<noteq> []" "addr_c \<noteq> []" "addr_d \<noteq> []"
  by (simp_all add: addr_A_def addr_a_def addr_b_def addr_c_def addr_d_def)

lemmas eval_defs = handle_def gated_def requireWhitelist_def gate_candidate_def js_or_def truthy_def
  fetchWhitelist_def refresh_def entry_address_def createProject_def postSignal_def
  deleteSignal_def deleteProject_def updateProject_def owner_mismatch_def apply_update_def
  string_of_def or_null_def categories_def
  find_signal_def summary_of_def Map_get_def Map_values_def Map_keys_def Map_delete_def
  init_def env0_def body_create_def body_signal_def empty_body_def WHITELIST_CACHE_TTL_def
  Let_def addr_lower addr_valid addr_neq addr_neq [symmetric]

lemma signalAmount_5: "signalAmount (Some ''5'') = 5" by code_simp
lemma signalAmount_3: "signalAmount (Some ''3'') = 3" by code_simp

lemma st1_eq: "st1 = \<lparr>projects =
    [(''p1'',
      \<lparr>p_id = ''p1'', name = ''Foo'', description = [], url = None,
         logo = None, category = ''other'', tags = [''DeFi''],
         owner = addr_c,
         supportCount = 0, totalSignal = 0, createdAt = 1000,
         updatedAt = 1000\<rparr>)],
    signals = [],
    whitelistCache = Some {addr_a, addr_b}, whitelistCacheTime = 1000, fetchCalls = 1\<rparr>"
  by (simp add: st1_def eval_defs js_slice_def slice_index_def)

lemma st2_eq: "st2 = \<lparr>projects =
    [(''p1'',
      \<lparr>p_id = ''p1'', name = ''Foo'', description = [], url = None,
         logo = None, category = ''other'', tags = [''DeFi''],
         owner = addr_c,
         supportCount = 1, totalSignal = 5, createdAt = 1000,
         updatedAt = 1000\<rparr>)],
    signals = [(''s1'',
        \<lparr>s_id = ''s1'', projectId = ''p1'',
           address = addr_a,
           amount = 5, message = None, s_createdAt = 2000, s_updatedAt = None\<rparr>)],
    whitelistCache = Some {addr_a, addr_b}, whitelistCacheTime = 1000, fetchCalls = 1\<rparr>"
  by (simp add: st2_def st1_eq eval_defs signalAmount_5)

lemma st3_eq: "st3 = \<lparr>projects =
    [(''p1'',
      \<lparr>p_id = ''p1'', name = ''Foo'', description = [], url = None,
         logo = None, category = ''other'', tags = [''DeFi''],
         owner = addr_c,
         supportCount = 1, totalSignal = 8, createdAt = 1000,
         updatedAt = 1000\<rparr>)],
    signals = [(''s1'',
        \<lparr>s_id = ''s1'', projectId = ''p1'',
           address = addr_a,
           amount = 8, message = None, s_createdAt = 2000, s_updatedAt = Some 3000\<rparr>)],
    whitelistCache = Some {addr_a, addr_b}, whitelistCacheTime = 1000, fetchCalls = 1\<rparr>"
  by (simp add: st3_def st2_eq eval_defs signalAmount_3)


lemma reachable_st1: "reachable isAddress_hex st1"
  unfolding st1_def by (rule reachable_step [OF reachable_init]) (simp add: fresh_uuid_def eval_defs)

lemma reachable_st2: "reachable isAddress_hex st2"
  unfolding st2_def
  by (rule reachable_step [OF reachable_st1]) (simp add: fresh_uuid_def st1_eq eval_defs)

lemma reachable_st3: "reachable isAddress_hex st3"
  unfolding st3_def
  by (rule reachable_step [OF reachable_st2]) (simp add: fresh_uuid_def st2_eq eval_defs)

section \<open>The claims\<close>

text \<open>
  C1. In every reachable state, the \<open>supportCount\<close> of every stored project is the number
  of live signals whose \<open>projectId\<close> is the project's id, and its \<open>totalSignal\<close> is the
  sum of their amounts; every request handled from such a state (project creation, update
  and deletion, signal upsert and removal) leads to a state where both equalities hold.
\<close>

theorem counters_equal_live_signals:
  assumes "reachable isAddress s"
  shows "(\<forall>p \<in> set (Map_values (projects s)).
            supportCount p = int (length (project_signals s (p_id p))) \<and>
            totalSignal p = sum_list (map amount (project_signals s (p_id p)))) \<and>
         (\<forall>e r. fresh_uuid s e \<longrightarrow> counters_ok (fst (handle isAddress s e r)))"
proof -
  from assms have inv: "stores_inv s" by (rule reachable_inv)
  then have "counters_ok s" by (simp add: stores_inv_def)
  moreover have "counters_ok (fst (handle isAddress s e r))" if "fresh_uuid s e" for e r
    using handle_inv [OF inv that, of isAddress r] by (simp add: stores_inv_def)
  ultimately show ?thesis by (simp add: counters_ok_def)
qed

theorem counters_equal_live_signals_witness:
  "reachable isAddress_hex st3 \<and>
   map supportCount (Map_values (projects st3)) = [1] \<and>
   map (\<lambda>p. int (length (project_signals st3 (p_id p)))) (Map_values (projects st3)) = [1] \<and>
   map totalSignal (Map_values (projects st3)) = [8] \<and>
   map (\<lambda>p. sum_list (map amount (project_signals st3 (p_id p)))) (Map_values (projects st3)) = [8] \<and>
   fresh_uuid st3 (env0 ''s3'' 4000) \<and>
   counters_ok (fst (handle isAddress_hex st3 (env0 ''s3'' 4000) (DeleteSignal ''p1'' (body_signal addr_A ''''))))"
proof -
  have f: "fresh_uuid st3 (env0 ''s3'' 4000)"
    by (simp add: fresh_uuid_def st3_eq eval_defs)
  from counters_equal_live_signals [OF reachable_st3] f
  have "counters_ok (fst (handle isAddress_hex st3 (env0 ''s3'' 4000) (DeleteSignal ''p1'' (body_signal addr_A ''''))))"
    by blast
  moreover from counters_equal_live_signals [OF reachable_st3]
  have "map supportCount (Map_values (projects st3)) =
        map (\<lambda>p. int (length (project_signals st3 (p_id p)))) (Map_values (projects st3))"
    "map totalSignal (Map_values (projects st3)) =
        map (\<lambda>p. sum_list (map amount (project_signals st3 (p_id p)))) (Map_values (projects st3))"
    by simp_all
  moreover have "map supportCount (Map_values (projects st3)) = [1]"
    "map totalSignal (Map_values (projects st3)) = [8]"
    by (simp_all add: st3_eq Map_values_def)
  ultimately show ?thesis using reachable_st3 f by simp
qed


lemma Map_get_Map_set_same: "Map_get (Map_set m k v) k = Some v"
  by (induction m) (auto simp: Map_get_def)

lemma Map_get_Map_set_other: "k' \<noteq> k \<Longrightarrow> Map_get (Map_set m k v) k' = Map_get m k'"
  by (induction m) (auto simp: Map_get_def)

lemma find_signal_unique:
  assumes inv: "stores_inv s" and ex: "ex \<in> set (Map_values (signals s))"
    and "projectId ex = p_id p" "address ex = toLowerCase a"
  shows "find_signal s p a = Some ex"
proof (cases "find_signal s p a")
  case None
  from find_signal_None [OF None ex] assms(3,4) show ?thesis by simp
next
  case (Some ex')
  note fs = find_signal_Some [OF Some]
  from inv have "distinct (map (\<lambda>sg. (projectId sg, address sg)) (Map_values (signals s)))"
    by (simp add: stores_inv_def pairs_ok_def)
  then have "inj_on (\<lambda>sg. (projectId sg, address sg)) (set (Map_values (signals s)))"
    by (simp add: distinct_map)
  then have "ex' = ex"
    using fs ex assms(3,4) inj_onD [of "\<lambda>sg. (projectId sg, address sg)" _ ex' ex] by simp
  with Some show ?thesis by simp
qed

lemma gate_rejection:
  assumes "requireWhitelist fld s e b = (Some r, s')"
  shows "r = Err 400 ''Address required'' \<or>
         r = Err 403 ''Invite-only. Tag @owockibot on X to request access.''"
proof (cases "gate_candidate fld b")
  case None
  with assms show ?thesis by (simp add: requireWhitelist_def)
next
  case (Some addr)
  show ?thesis
  proof (cases "fetchWhitelist s (gate_now e) (fetched e)")
    case (Pair wl s0)
    show ?thesis
    proof (cases "addr = []")
      case True
      with assms Some show ?thesis by (simp add: requireWhitelist_def)
    next
      case False
      show ?thesis
      proof (cases "toLowerCase addr \<in> wl")
        case True
        with assms Some Pair False show ?thesis by (simp add: requireWhitelist_def)
      next
        case notin: False
        with assms Some Pair False have "r = Err 403 ''Invite-only. Tag @owockibot on X to request access.''"
          by (simp add: requireWhitelist_def)
        then show ?thesis ..
      qed
    qed
  qed
qed

lemma postSignal_existing:
  assumes inv: "stores_inv s"
    and ex: "ex \<in> set (Map_values (signals s))" "projectId ex = ident"
      "address ex = toLowerCase (string_of (b_address b))"
    and res: "postSignal isAddress ident e b s = (s', RSignal code sg sm)"
  shows "code = 200 \<and> Map_keys (signals s') = Map_keys (signals s) \<and>
         Map_get (signals s') (s_id ex) = Some sg \<and>
         s_id sg = s_id ex \<and> projectId sg = ident \<and> address sg = address ex \<and>
         amount sg = amount ex + signalAmount (b_amount b) \<and>
         map_option supportCount (Map_get (projects s') ident) =
           map_option supportCount (Map_get (projects s) ident) \<and>
         map_option totalSignal (Map_get (projects s') ident) =
           map_option (\<lambda>p. totalSignal p + signalAmount (b_amount b)) (Map_get (projects s) ident)"
proof (cases "Map_get (projects s) ident")
  case None
  with res show ?thesis by (simp add: postSignal_def)
next
  case (Some p)
  note sp = stored_project [OF inv Some]
  from ex sp(1) have fnd: "find_signal s p (string_of (b_address b)) = Some ex"
    by (intro find_signal_unique [OF inv]) simp_all
  from stored_signal(1) [OF inv ex(1)]
  have keys: "Map_keys (Map_set (signals s) (s_id ex) v) = Map_keys (signals s)" for v
    by (rule Map_keys_Map_set_present)
  let ?a = "signalAmount (b_amount b)"
  let ?ex' = "ex\<lparr>amount := amount ex + ?a,
                    message := (if truthy (b_message b) then b_message b else message ex),
                    s_updatedAt := Some (now e)\<rparr>"
  let ?p' = "p\<lparr>totalSignal := totalSignal p + ?a\<rparr>"
  show ?thesis
  proof (cases "truthy (b_address b) \<and> isAddress (string_of (b_address b))")
    case False
    with res Some show ?thesis by (auto simp: postSignal_def split: if_splits)
  next
    case True
    with Some fnd have "postSignal isAddress ident e b s =
        (s\<lparr>signals := Map_set (signals s) (s_id ex) ?ex',
           projects := Map_set (projects s) (p_id p) ?p'\<rparr>, RSignal 200 ?ex' (summary_of ?p'))"
      by (simp add: postSignal_def Let_def)
    with res have s': "s' = s\<lparr>signals := Map_set (signals s) (s_id ex) ?ex',
           projects := Map_set (projects s) (p_id p) ?p'\<rparr>"
      and code: "code = 200" and sg: "sg = ?ex'" by auto
    show ?thesis
      unfolding s' code sg using Some sp(1) ex(2)
      by (simp add: keys Map_get_Map_set_same)
  qed
qed

text \<open>
C2. In every reachable state there is at most one live signal for each pair of project
  and address. A successful signal upsert for a pair that already has a live signal
  creates no second record: it answers 200, leaves the keys of the signal store as they
  were, adds the clamped amount to the amount of the existing record and leaves the
  project's \<open>supportCount\<close> unchanged. (Signalling 5 and then 3 from one address leaves
  one record of amount 8 and a support count of 1.)
\<close>

theorem one_signal_per_pair_accumulating:
  assumes "reachable isAddress s"
  shows "distinct (map (\<lambda>sg. (projectId sg, address sg)) (Map_values (signals s))) \<and>
         (\<forall>e ident b ex s' code sg sm.
            ex \<in> set (Map_values (signals s)) \<and> projectId ex = ident \<and>
            address ex = toLowerCase (string_of (b_address b)) \<and>
            handle isAddress s e (PostSignal ident b) = (s', RSignal code sg sm) \<longrightarrow>
            code = 200 \<and> Map_keys (signals s') = Map_keys (signals s) \<and>
            Map_get (signals s') (s_id ex) = Some sg \<and>
            s_id sg = s_id ex \<and> projectId sg = ident \<and> address sg = address ex \<and>
            amount sg = amount ex + signalAmount (b_amount b) \<and>
            map_option supportCount (Map_get (projects s') ident) =
              map_option supportCount (Map_get (projects s) ident))"
proof (intro conjI allI impI)
  from assms have inv: "stores_inv s" by (rule reachable_inv)
  then show "distinct (map (\<lambda>sg. (projectId sg, address sg)) (Map_values (signals s)))"
    by (simp add: stores_inv_def pairs_ok_def)
  fix e ident b ex s' code sg sm
  assume a: "ex \<in> set (Map_values (signals s)) \<and> projectId ex = ident \<and>
            address ex = toLowerCase (string_of (b_address b)) \<and>
            handle isAddress s e (PostSignal ident b) = (s', RSignal code sg sm)"
  then have ex: "ex \<in> set (Map_values (signals s))" "projectId ex = ident"
      "address ex = toLowerCase (string_of (b_address b))"
    and res: "handle isAddress s e (PostSignal ident b) = (s', RSignal code sg sm)"
    by simp_all
  have "code = 200 \<and> Map_keys (signals s') = Map_keys (signals s) \<and>
        Map_get (signals s') (s_id ex) = Some sg \<and>
        s_id sg = s_id ex \<and> projectId sg = ident \<and> address sg = address ex \<and>
        amount sg = amount ex + signalAmount (b_amount b) \<and>
        map_option supportCount (Map_get (projects s') ident) =
          map_option supportCount (Map_get (projects s) ident)"
  proof (cases rule: gated_cases [of s e b "postSignal isAddress ident e b"])
    case (rejected r s0)
    from res rejected(1) have "r = RSignal code sg sm" by (simp add: handle_def)
    with gate_rejection [OF rejected(4)] show ?thesis by simp
  next
    case (passed s0)
    from res passed(1) have r0: "postSignal isAddress ident e b s0 = (s', RSignal code sg sm)"
      by (simp add: handle_def)
    from inv passed(2,3) have inv0: "stores_inv s0" using stores_inv_cong [of s0 s] by simp
    from ex(1) passed(3) have ex0: "ex \<in> set (Map_values (signals s0))" by simp
    from postSignal_existing [OF inv0 ex0 ex(2,3) r0] passed(2,3)
    show ?thesis by simp
  qed
  then show "code = 200" "Map_keys (signals s') = Map_keys (signals s)"
    "Map_get (signals s') (s_id ex) = Some sg" "s_id sg = s_id ex" "projectId sg = ident"
    "address sg = address ex" "amount sg = amount ex + signalAmount (b_amount b)"
    "map_option supportCount (Map_get (projects s') ident) =
       map_option supportCount (Map_get (projects s) ident)"
    by simp_all
qed


theorem one_signal_per_pair_accumulating_witness:
  "reachable isAddress_hex st2 \<and>
   map amount (Map_values (signals st2)) = [5] \<and>
   fst (handle isAddress_hex st2 (env0 ''s2'' 3000) (PostSignal ''p1'' (body_signal addr_a ''3''))) = st3 \<and>
   Map_keys (signals st3) = Map_keys (signals st2) \<and>
   map amount (Map_values (signals st3)) = [8] \<and>
   map supportCount (Map_values (projects st3)) = [1] \<and>
   distinct (map (\<lambda>sg. (projectId sg, address sg)) (Map_values (signals st2)))"
proof -
  let ?sig5 = "\<lparr>s_id = ''s1'', projectId = ''p1'', address = addr_a, amount = 5, message = None,
                 s_createdAt = 2000, s_updatedAt = None\<rparr>"
  let ?sig8 = "\<lparr>s_id = ''s1'', projectId = ''p1'', address = addr_a, amount = 8, message = None,
                 s_createdAt = 2000, s_updatedAt = Some 3000\<rparr>"
  let ?sm = "\<lparr>sum_id = ''p1'', sum_name = ''Foo'', sum_supportCount = 1, sum_totalSignal = 8\<rparr>"
  have h: "handle isAddress_hex st2 (env0 ''s2'' 3000) (PostSignal ''p1'' (body_signal addr_a ''3'')) =
           (st3, RSignal 200 ?sig8 ?sm)"
    by (simp add: st3_eq st2_eq eval_defs signalAmount_3)
  have ex: "?sig5 \<in> set (Map_values (signals st2))" "projectId ?sig5 = ''p1''"
    "address ?sig5 = toLowerCase (string_of (b_address (body_signal addr_a ''3'')))"
    by (simp_all add: st2_eq eval_defs)
  note main = one_signal_per_pair_accumulating [OF reachable_st2]
  from main have d: "distinct (map (\<lambda>sg. (projectId sg, address sg)) (Map_values (signals st2)))"
    by (rule conjunct1)
  from main ex h have "Map_keys (signals st3) = Map_keys (signals st2) \<and>
      amount ?sig8 = amount ?sig5 + signalAmount (b_amount (body_signal addr_a ''3''))"
    by blast
  then have k: "Map_keys (signals st3) = Map_keys (signals st2)" by simp
  have "map amount (Map_values (signals st2)) = [5]"
    "map amount (Map_values (signals st3)) = [8]"
    "map supportCount (Map_values (projects st3)) = [1]"
    by (simp_all add: st2_eq st3_eq Map_values_def)
  with reachable_st2 h d k show ?thesis by simp
qed


lemma deleteProject_success:
  assumes inv: "stores_inv s" and res: "deleteProject ident b s = (s', RDeleted d)"
  shows "d = ident \<and>
         projects s' = filter (\<lambda>kv. fst kv \<noteq> ident) (projects s) \<and>
         signals s' = filter (\<lambda>kv. projectId (snd kv) \<noteq> ident) (signals s)"
proof (cases "Map_get (projects s) ident")
  case None
  with res show ?thesis by (simp add: deleteProject_def)
next
  case (Some p)
  note sp = stored_project [OF inv Some]
  from inv have d: "distinct (Map_keys (signals s))" by (simp add: stores_inv_def keys_ok_def)
  show ?thesis
  proof (cases "owner_mismatch b p")
    case True
    with res Some show ?thesis by (simp add: deleteProject_def)
  next
    case False
    with Some have "deleteProject ident b s =
        (s\<lparr>projects := Map_delete (projects s) (p_id p),
           signals := filter (\<lambda>kv. \<not> projectId (snd kv) = p_id p) (signals s)\<rparr>, RDeleted (p_id p))"
      using doomed_filter [OF d, of "\<lambda>sg. projectId sg = p_id p"]
      by (simp add: deleteProject_def Let_def)
    with res sp(1) show ?thesis by (auto simp: Map_delete_def)
  qed
qed

lemma set_sort_desc: "set (sort_desc key xs) = set xs"
  by (simp add: sort_desc_def)

text \<open>
C3. A successful deletion of a project, from a reachable state, removes the project and
  exactly the signals whose \<open>projectId\<close> is its id: afterwards get-by-id answers 404 for
  it, no stored signal references it, and the supporter aggregation of any address lists no
  signal of that project.
\<close>

theorem project_deletion_cascades:
  assumes "reachable isAddress s"
    and "handle isAddress s e (DeleteProject ident b) = (s', RDeleted d)"
  shows "d = ident \<and>
         projects s' = filter (\<lambda>kv. fst kv \<noteq> ident) (projects s) \<and>
         signals s' = filter (\<lambda>kv. projectId (snd kv) \<noteq> ident) (signals s) \<and>
         Map_get (projects s') ident = None \<and>
         getProject s' ident = Err 404 ''Project not found'' \<and>
         (\<forall>sg \<in> set (Map_values (signals s')). projectId sg \<noteq> ident) \<and>
         (\<forall>addr a n t sigs. supporters isAddress s' addr = RSupporters a n t sigs \<longrightarrow>
            (\<forall>x \<in> set sigs. projectId (a_signal x) \<noteq> ident))"
proof -
  from assms(1) have inv: "stores_inv s" by (rule reachable_inv)
  from assms(2) have "deleteProject ident b s = (s', RDeleted d)" by (simp add: handle_def)
  from deleteProject_success [OF inv this]
  have d: "d = ident" and ps: "projects s' = filter (\<lambda>kv. fst kv \<noteq> ident) (projects s)"
    and sg: "signals s' = filter (\<lambda>kv. projectId (snd kv) \<noteq> ident) (signals s)"
    by simp_all
  have none: "Map_get (projects s') ident = None"
    unfolding Map_get_None ps by (auto simp: Map_keys_def)
  then have get: "getProject s' ident = Err 404 ''Project not found''"
    by (simp add: getProject_def)
  have gone: "\<forall>sg \<in> set (Map_values (signals s')). projectId sg \<noteq> ident"
    unfolding sg by (auto simp: Map_values_def)
  have "\<forall>x \<in> set sigs. projectId (a_signal x) \<noteq> ident"
    if "supporters isAddress s' addr = RSupporters a n t sigs" for addr a n t sigs
  proof (cases "isAddress addr")
    case False
    with that show ?thesis by (simp add: supporters_def)
  next
    case True
    with that have "sigs = sort_desc (\<lambda>a. s_createdAt (a_signal a))
        (map (annotate s') (filter (\<lambda>sg. address sg = toLowerCase addr) (Map_values (signals s'))))"
      by (auto simp: supporters_def Let_def)
    then have "set sigs \<subseteq> annotate s' ` set (Map_values (signals s'))"
      by (auto simp: set_sort_desc)
    moreover have "a_signal (annotate s' x) = x" for x by (simp add: annotate_def)
    ultimately show ?thesis using gone by fastforce
  qed
  with d ps sg none get gone show ?thesis by blast
qed

lemma st4_eq: "st4 = \<lparr>projects = [], signals = [],
    whitelistCache = Some {addr_a, addr_b}, whitelistCacheTime = 1000, fetchCalls = 1\<rparr>"
  by (simp add: st4_def st3_eq eval_defs body_owner_def)

theorem project_deletion_cascades_witness:
  "reachable isAddress_hex st3 \<and>
   map projectId (Map_values (signals st3)) = [''p1''] \<and>
   handle isAddress_hex st3 (env0 ''u4'' 4000) (DeleteProject ''p1'' (body_owner addr_c)) =
     (st4, RDeleted ''p1'') \<and>
   getProject st4 ''p1'' = Err 404 ''Project not found'' \<and>
   signals st4 = [] \<and>
   supporters isAddress_hex st4 addr_A = RSupporters addr_a 0 0 []"
proof -
  have h: "handle isAddress_hex st3 (env0 ''u4'' 4000) (DeleteProject ''p1'' (body_owner addr_c)) =
     (st4, RDeleted ''p1'')"
    by (simp add: st4_eq st3_eq eval_defs body_owner_def)
  from project_deletion_cascades [OF reachable_st3 h]
  have "getProject st4 ''p1'' = Err 404 ''Project not found''" by simp
  moreover have "signals st4 = []" by (simp add: st4_eq)
  moreover have "supporters isAddress_hex st4 addr_A = RSupporters addr_a 0 0 []"
    by (simp add: supporters_def st4_eq eval_defs sort_desc_def)
  moreover have "map projectId (Map_values (signals st3)) = [''p1'']"
    by (simp add: st3_eq Map_values_def)
  ultimately show ?thesis using reachable_st3 h by simp
qed

















lemma requireWhitelist_eq:
  "requireWhitelist fld s e b =
     (if \<not> truthy (gate_candidate fld b) then (Some (Err 400 ''Address required''), s)
      else if toLowerCase (string_of (gate_candidate fld b))
                \<notin> fst (fetchWhitelist s (gate_now e) (fetched e))
      then (Some (Err 403 ''Invite-only. Tag @owockibot on X to request access.''),
            snd (fetchWhitelist s (gate_now e) (fetched e)))
      else (None, snd (fetchWhitelist s (gate_now e) (fetched e))))"
proof (cases "gate_candidate fld b")
  case None
  then show ?thesis by (simp add: requireWhitelist_def truthy_def)
next
  case (Some addr)
  show ?thesis
  proof (cases "fetchWhitelist s (gate_now e) (fetched e)")
    case (Pair wl s0)
    with Some show ?thesis
      by (simp add: requireWhitelist_def truthy_def string_of_def)
  qed
qed

lemma first_nonempty_candidate:
  "first_nonempty (gate_fields fld b) =
     (if truthy (gate_candidate fld b) then gate_candidate fld b else None)"
  by (simp add: first_nonempty_def gate_fields_def gate_candidate_def js_or_def)






text \<open>
C7. The time-to-live of the allow-list cache is five minutes. When the cache is populated
  and younger than that, \<open>fetchWhitelist\<close> returns the cached set and leaves the whole
  state, the count of external calls included, as it was, whatever the remote service would
  have answered. When the refresh fails (the fetch, the JSON decoding or the mapping of an
  entry throws), it returns the previous cached set if there is one, expired or not, and
  the empty set otherwise, with the cache and its time stamp unchanged; the failure is
  not passed on: the access gate decides on the returned set and lets a cached address
  through.
\<close>

theorem whitelist_cache_behaviour:
  "WHITELIST_CACHE_TTL = 5 * 60 * 1000 \<and>
   (whitelistCache s = Some cache \<and> now_ms - whitelistCacheTime s < 5 * 60 * 1000 \<longrightarrow>
      fetchWhitelist s now_ms f = (cache, s)) \<and>
   (refresh f = None \<longrightarrow>
      fst (fetchWhitelist s now_ms f) = (case whitelistCache s of None \<Rightarrow> {} | Some c \<Rightarrow> c) \<and>
      whitelistCache (snd (fetchWhitelist s now_ms f)) = whitelistCache s \<and>
      whitelistCacheTime (snd (fetchWhitelist s now_ms f)) = whitelistCacheTime s \<and>
      projects (snd (fetchWhitelist s now_ms f)) = projects s \<and>
      signals (snd (fetchWhitelist s now_ms f)) = signals s) \<and>
   (refresh f = None \<and> toLowerCase a \<in> (case whitelistCache s of None \<Rightarrow> {} | Some c \<Rightarrow> c) \<and>
    a \<noteq> [] \<and> gate_candidate fld b = Some a \<and> fetched e = f \<and> gate_now e = now_ms \<longrightarrow>
      fst (requireWhitelist fld s e b) = None)"
proof -
  have fresh: "fetchWhitelist s now_ms f = (cache, s)"
    if "whitelistCache s = Some cache" "now_ms - whitelistCacheTime s < 5 * 60 * 1000"
    using that by (simp add: fetchWhitelist_def WHITELIST_CACHE_TTL_def)
  have fail: "fst (fetchWhitelist s now_ms f) = (case whitelistCache s of None \<Rightarrow> {} | Some c \<Rightarrow> c) \<and>
      whitelistCache (snd (fetchWhitelist s now_ms f)) = whitelistCache s \<and>
      whitelistCacheTime (snd (fetchWhitelist s now_ms f)) = whitelistCacheTime s \<and>
      projects (snd (fetchWhitelist s now_ms f)) = projects s \<and>
      signals (snd (fetchWhitelist s now_ms f)) = signals s"
    if "refresh f = None"
    using that by (simp add: fetchWhitelist_def split: option.splits)
  have gate: "fst (requireWhitelist fld s e b) = None"
    if "refresh f = None" "toLowerCase a \<in> (case whitelistCache s of None \<Rightarrow> {} | Some c \<Rightarrow> c)"
      "a \<noteq> []" "gate_candidate fld b = Some a" "fetched e = f" "gate_now e = now_ms"
    using that fail [OF that(1)]
    by (simp add: requireWhitelist_eq truthy_def string_of_def)
  from fresh fail gate show ?thesis
    by (simp add: WHITELIST_CACHE_TTL_def)
qed

theorem whitelist_cache_behaviour_witness:
  "whitelistCache st1 = Some {addr_a, addr_b} \<and> whitelistCacheTime st1 = 1000 \<and>
   fetchWhitelist st1 2000 FetchFailed = ({addr_a, addr_b}, st1) \<and>
   refresh (FetchOk [Plain addr_A, Malformed]) = None \<and>
   fetchWhitelist st1 400000 (FetchOk [Plain addr_A, Malformed]) =
     ({addr_a, addr_b}, st1\<lparr>fetchCalls := 2\<rparr>) \<and>
   fetchWhitelist init 0 FetchFailed = ({}, init\<lparr>fetchCalls := 1\<rparr>) \<and>
   fst (requireWhitelist b_address st1 (env0 ''x'' 400000\<lparr>fetched := FetchFailed\<rparr>)
          (body_signal addr_A ''1'')) = None"
proof -
  have c: "whitelistCache st1 = Some {addr_a, addr_b}" "whitelistCacheTime st1 = 1000"
    by (simp_all add: st1_eq)
  have r: "refresh (FetchOk [Plain addr_A, Malformed]) = None" "refresh FetchFailed = None"
    by (simp_all add: refresh_def entry_address_def)
  from whitelist_cache_behaviour [of st1 "{addr_a, addr_b}" 2000 FetchFailed] c
  have a: "fetchWhitelist st1 2000 FetchFailed = ({addr_a, addr_b}, st1)" by simp
  have b: "fetchWhitelist st1 400000 (FetchOk [Plain addr_A, Malformed]) =
     ({addr_a, addr_b}, st1\<lparr>fetchCalls := 2\<rparr>)"
    by (simp add: fetchWhitelist_def r c WHITELIST_CACHE_TTL_def st1_eq)
  have d: "fetchWhitelist init 0 FetchFailed = ({}, init\<lparr>fetchCalls := 1\<rparr>)"
    by (simp add: fetchWhitelist_def r init_def)
  have g: "fst (requireWhitelist b_address st1 (env0 ''x'' 400000\<lparr>fetched := FetchFailed\<rparr>)
          (body_signal addr_A ''1'')) = None"
    by (simp add: requireWhitelist_eq fetchWhitelist_def r c WHITELIST_CACHE_TTL_def eval_defs)
  from c r a b d g show ?thesis by simp
qed









lemma gate_same_candidate:
  assumes "first_nonempty (gate_fields fld b1) = first_nonempty (gate_fields fld b2)"
  shows "requireWhitelist fld s e b1 = requireWhitelist fld s e b2"
proof -
  from assms have eq: "(if truthy (gate_candidate fld b1) then gate_candidate fld b1 else None) =
      (if truthy (gate_candidate fld b2) then gate_candidate fld b2 else None)"
    by (simp only: first_nonempty_candidate)
  show ?thesis
  proof (cases "truthy (gate_candidate fld b1)")
    case True
    then have "gate_candidate fld b1 \<noteq> None" by (auto simp: truthy_def split: option.splits)
    with eq True have "gate_candidate fld b2 = gate_candidate fld b1"
      by (simp split: if_splits)
    then show ?thesis by (simp add: requireWhitelist_eq)
  next
    case False
    with eq have "\<not> truthy (gate_candidate fld b2)"
      by (auto simp: truthy_def split: if_splits option.splits)
    with False show ?thesis by (simp add: requireWhitelist_eq)
  qed
qed

lemma createProject_created:
  assumes "truthy (b_name b)" and "b_owner b = Some ow" and "ow \<noteq> []" and "isAddress ow"
  shows "\<exists>p. createProject isAddress e b s0 = (s0\<lparr>projects := Map_set (projects s0) (uuid e) p\<rparr>, RProject 201 p)
             \<and> owner p = toLowerCase ow \<and> p_id p = uuid e"
  using assms by (simp add: createProject_def Let_def truthy_def string_of_def)

text \<open>
C9. The answer of the access gate, for a given state and environment, depends on the
  body only through the first non-empty value among the configured field, \<open>creator\<close>,
  \<open>participant\<close>, \<open>sender\<close>, \<open>from\<close> and \<open>address\<close>: two bodies that agree on it get the
  same answer. The owner of a new project is not looked at: when the gate lets the request
  through and the name and the owner address are valid, the project is created (201) with
  that owner, also when the owner is not on the allow-list.
\<close>

theorem gate_depends_on_candidate_only:
  "(first_nonempty (gate_fields fld b1) = first_nonempty (gate_fields fld b2) \<longrightarrow>
      requireWhitelist fld s e b1 = requireWhitelist fld s e b2) \<and>
   (fst (requireWhitelist b_address s e b) = None \<and> truthy (b_name b) \<and>
    b_owner b = Some ow \<and> ow \<noteq> [] \<and> isAddress ow \<and>
    toLowerCase ow \<notin> fst (fetchWhitelist s (gate_now e) (fetched e)) \<longrightarrow>
      (\<exists>p. snd (handle isAddress s e (PostProject b)) = RProject 201 p \<and>
           owner p = toLowerCase ow \<and>
           Map_get (projects (fst (handle isAddress s e (PostProject b)))) (uuid e) = Some p))"
proof (intro conjI impI)
  assume "first_nonempty (gate_fields fld b1) = first_nonempty (gate_fields fld b2)"
  then show "requireWhitelist fld s e b1 = requireWhitelist fld s e b2"
    by (rule gate_same_candidate)
next
  assume a: "fst (requireWhitelist b_address s e b) = None \<and> truthy (b_name b) \<and>
    b_owner b = Some ow \<and> ow \<noteq> [] \<and> isAddress ow \<and>
    toLowerCase ow \<notin> fst (fetchWhitelist s (gate_now e) (fetched e))"
  obtain ro s0 where rw: "requireWhitelist b_address s e b = (ro, s0)"
    by (cases "requireWhitelist b_address s e b")
  with a have ro: "ro = None" by simp
  from a obtain p where
    p: "createProject isAddress e b s0 = (s0\<lparr>projects := Map_set (projects s0) (uuid e) p\<rparr>, RProject 201 p)"
       "owner p = toLowerCase ow"
    using createProject_created [of b ow isAddress e s0] by blast
  from rw ro p(1) have "handle isAddress s e (PostProject b) =
      (s0\<lparr>projects := Map_set (projects s0) (uuid e) p\<rparr>, RProject 201 p)"
    by (simp add: handle_def gated_def)
  with p(2) show "\<exists>p. snd (handle isAddress s e (PostProject b)) = RProject 201 p \<and>
           owner p = toLowerCase ow \<and>
           Map_get (projects (fst (handle isAddress s e (PostProject b)))) (uuid e) = Some p"
    by (simp add: Map_get_Map_set_same)
qed

theorem gate_depends_on_candidate_only_witness:
  "first_nonempty (gate_fields b_address body_create) = Some addr_a \<and>
   first_nonempty (gate_fields b_address (body_signal addr_a ''5'')) = Some addr_a \<and>
   requireWhitelist b_address init (env0 ''p1'' 1000) body_create =
     requireWhitelist b_address init (env0 ''p1'' 1000) (body_signal addr_a ''5'') \<and>
   fst (requireWhitelist b_address init (env0 ''p1'' 1000) body_create) = None \<and>
   fst (fetchWhitelist init 1000 (FetchOk [Plain addr_A, WithAddress addr_b])) = {addr_a, addr_b} \<and>
   b_owner body_create = Some addr_c \<and> toLowerCase addr_c \<notin> {addr_a, addr_b} \<and>
   (\<exists>p. snd (handle isAddress_hex init (env0 ''p1'' 1000) (PostProject body_create)) = RProject 201 p \<and>
        owner p = addr_c)"
proof -
  have f: "first_nonempty (gate_fields b_address body_create) = Some addr_a"
    "first_nonempty (gate_fields b_address (body_signal addr_a ''5'')) = Some addr_a"
    by (simp_all add: first_nonempty_def gate_fields_def eval_defs)
  note main = gate_depends_on_candidate_only [of b_address body_create "body_signal addr_a ''5''"
      init "env0 ''p1'' 1000" body_create addr_c isAddress_hex]
  from main f have same: "requireWhitelist b_address init (env0 ''p1'' 1000) body_create =
     requireWhitelist b_address init (env0 ''p1'' 1000) (body_signal addr_a ''5'')"
    by simp
  have w: "fst (fetchWhitelist init 1000 (FetchOk [Plain addr_A, WithAddress addr_b])) = {addr_a, addr_b}"
    by (simp add: eval_defs)
  have g: "fst (requireWhitelist b_address init (env0 ''p1'' 1000) body_create) = None"
    by (simp add: requireWhitelist_eq eval_defs)
  have o: "b_owner body_create = Some addr_c" "toLowerCase addr_c \<notin> {addr_a, addr_b}"
    "truthy (b_name body_create)" "addr_c \<noteq> []" "isAddress_hex addr_c"
    by (simp_all add: eval_defs)
  have e: "fetched (env0 ''p1'' 1000) = FetchOk [Plain addr_A, WithAddress addr_b]"
    "gate_now (env0 ''p1'' 1000) = 1000"
    by (simp_all add: env0_def)
  from main g o w e
  have "\<exists>p. snd (handle isAddress_hex init (env0 ''p1'' 1000) (PostProject body_create)) = RProject 201 p \<and>
        owner p = toLowerCase addr_c"
    by auto
  then have "\<exists>p. snd (handle isAddress_hex init (env0 ''p1'' 1000) (PostProject body_create)) = RProject 201 p \<and>
        owner p = addr_c"
    by (simp add: addr_lower)
  with f same g w o(1,2) show ?thesis by simp
qed


lemma find_signal_absent:
  assumes "\<forall>sg \<in> set (Map_values (signals s)). \<not> (projectId sg = p_id p \<and> address sg = toLowerCase a)"
  shows "find_signal s p a = None"
  using assms unfolding find_signal_def find_None_iff by simp

lemma deleteSignal_never_invalid_address:
  "snd (deleteSignal ident b s) \<noteq> Err 400 ''Invalid address''"
proof (cases "Map_get (projects s) ident")
  case None
  then show ?thesis by (simp add: deleteSignal_def)
next
  case (Some p)
  show ?thesis
  proof (cases "find_signal s p (string_of (b_address b))")
    case None
    with Some show ?thesis by (simp add: deleteSignal_def)
  next
    case (Some ex)
    with \<open>Map_get (projects s) ident = Some p\<close> show ?thesis
      by (simp add: deleteSignal_def Let_def)
  qed
qed

lemma postSignal_malformed:
  assumes "b_address b = Some a" and "a \<noteq> []" and "\<not> isAddress a"
  shows "postSignal isAddress ident e b s0 =
           (s0, if Map_get (projects s0) ident = None then Err 404 ''Project not found''
                else Err 400 ''Invalid address'')"
  using assms by (simp add: postSignal_def truthy_def string_of_def split: option.splits)

text \<open>
C10. Signal removal does not validate the address. For an existing project and a
  non-empty address string, well-formed or not, it answers 404 \<open>Signal not found\<close> and
  leaves the state as it was when no live signal of the project has the lower-cased
  address; in no case does it answer 400 \<open>Invalid address\<close>. Signal upsert, by contrast,
  never succeeds with a malformed address: it answers with an error and leaves the stores
  as they were, and the error is 400 \<open>Invalid address\<close> once the gate has passed and the
  project exists.
\<close>

theorem signal_removal_skips_address_validation:
  "(Map_get (projects s) ident = Some p \<and> b_address b = Some a \<and> a \<noteq> [] \<and>
    (\<forall>sg \<in> set (Map_values (signals s)).
        \<not> (projectId sg = p_id p \<and> address sg = toLowerCase a)) \<longrightarrow>
      handle isAddress s e (DeleteSignal ident b) = (s, Err 404 ''Signal not found'')) \<and>
   snd (handle isAddress s e (DeleteSignal ident b)) \<noteq> Err 400 ''Invalid address'' \<and>
   (b_address b = Some a \<and> a \<noteq> [] \<and> \<not> isAddress a \<longrightarrow>
      is_error (snd (handle isAddress s e (PostSignal ident b))) \<and>
      projects (fst (handle isAddress s e (PostSignal ident b))) = projects s \<and>
      signals (fst (handle isAddress s e (PostSignal ident b))) = signals s) \<and>
   (b_address b = Some a \<and> a \<noteq> [] \<and> \<not> isAddress a \<and>
    fst (requireWhitelist b_address s e b) = None \<and> Map_get (projects s) ident \<noteq> None \<longrightarrow>
      snd (handle isAddress s e (PostSignal ident b)) = Err 400 ''Invalid address'')"
proof (intro conjI impI)
  assume a: "Map_get (projects s) ident = Some p \<and> b_address b = Some a \<and> a \<noteq> [] \<and>
    (\<forall>sg \<in> set (Map_values (signals s)).
        \<not> (projectId sg = p_id p \<and> address sg = toLowerCase a))"
  then have "find_signal s p a = None" by (intro find_signal_absent) simp
  with a show "handle isAddress s e (DeleteSignal ident b) = (s, Err 404 ''Signal not found'')"
    by (simp add: handle_def deleteSignal_def truthy_def string_of_def)
next
  show "snd (handle isAddress s e (DeleteSignal ident b)) \<noteq> Err 400 ''Invalid address''"
    using deleteSignal_never_invalid_address [of ident b s] by (simp add: handle_def)
next
  assume a: "b_address b = Some a \<and> a \<noteq> [] \<and> \<not> isAddress a"
  have "is_error (snd (handle isAddress s e (PostSignal ident b))) \<and>
      projects (fst (handle isAddress s e (PostSignal ident b))) = projects s \<and>
      signals (fst (handle isAddress s e (PostSignal ident b))) = signals s"
  proof (cases rule: gated_cases [of s e b "postSignal isAddress ident e b"])
    case (rejected r s0)
    with gate_rejection [OF rejected(4)] show ?thesis
      by (auto simp: handle_def is_error_def)
  next
    case (passed s0)
    with a postSignal_malformed [of b a isAddress ident e s0] show ?thesis
      by (simp add: handle_def is_error_def)
  qed
  then show "is_error (snd (handle isAddress s e (PostSignal ident b)))"
    "projects (fst (handle isAddress s e (PostSignal ident b))) = projects s"
    "signals (fst (handle isAddress s e (PostSignal ident b))) = signals s"
    by simp_all
next
  assume a: "b_address b = Some a \<and> a \<noteq> [] \<and> \<not> isAddress a \<and>
    fst (requireWhitelist b_address s e b) = None \<and> Map_get (projects s) ident \<noteq> None"
  show "snd (handle isAddress s e (PostSignal ident b)) = Err 400 ''Invalid address''"
  proof (cases rule: gated_cases [of s e b "postSignal isAddress ident e b"])
    case (rejected r s0)
    with a show ?thesis by simp
  next
    case (passed s0)
    with a postSignal_malformed [of b a isAddress ident e s0] show ?thesis
      by (simp add: handle_def)
  qed
qed

lemma lower_zz: "toLowerCase ''zz'' = ''zz''"
  by code_simp

theorem signal_removal_skips_address_validation_witness:
  "\<not> isAddress_hex ''zz'' \<and>
   Map_get (projects st3) ''p1'' \<noteq> None \<and>
   map address (Map_values (signals st3)) = [addr_a] \<and> addr_a \<noteq> toLowerCase ''zz'' \<and>
   handle isAddress_hex st3 (env0 ''u4'' 4000) (DeleteSignal ''p1'' (body_signal ''zz'' '''')) =
     (st3, Err 404 ''Signal not found'') \<and>
   fst (requireWhitelist b_address st3
          (env0 ''u4'' 400000\<lparr>fetched := FetchOk [Plain ''zz'']\<rparr>) (body_signal ''zz'' '''')) = None \<and>
   snd (handle isAddress_hex st3 (env0 ''u4'' 400000\<lparr>fetched := FetchOk [Plain ''zz'']\<rparr>)
          (PostSignal ''p1'' (body_signal ''zz'' ''''))) = Err 400 ''Invalid address''"
proof -
  let ?p = "\<lparr>p_id = ''p1'', name = ''Foo'', description = [], url = None, logo = None,
      category = ''other'', tags = [''DeFi''], owner = addr_c, supportCount = 1,
      totalSignal = 8, createdAt = 1000, updatedAt = 1000\<rparr>"
  let ?b = "body_signal ''zz'' ''''"
  let ?e = "env0 ''u4'' 400000\<lparr>fetched := FetchOk [Plain ''zz'']\<rparr>"
  have z: "\<not> isAddress_hex ''zz''" by (simp add: isAddress_hex_def)
  have nz: "addr_a \<noteq> ''zz''" by (simp add: addr_a_def)
  have get: "Map_get (projects st3) ''p1'' = Some ?p" by (simp add: st3_eq Map_get_def)
  have b: "b_address ?b = Some ''zz''" "''zz'' \<noteq> []" by (simp_all add: eval_defs)
  have none: "\<forall>sg \<in> set (Map_values (signals st3)).
        \<not> (projectId sg = p_id ?p \<and> address sg = toLowerCase ''zz'')"
    using nz by (simp add: st3_eq Map_values_def lower_zz)
  have g: "fst (requireWhitelist b_address st3 ?e ?b) = None"
    by (simp add: requireWhitelist_eq st3_eq eval_defs lower_zz)
  note main = signal_removal_skips_address_validation [of st3 "''p1''" ?p ?b "''zz''" isAddress_hex]
  from main [of "env0 ''u4'' 4000"] get b none
  have d: "handle isAddress_hex st3 (env0 ''u4'' 4000) (DeleteSignal ''p1'' ?b) =
     (st3, Err 404 ''Signal not found'')"
    by blast
  from main [of ?e] get b z g
  have u: "snd (handle isAddress_hex st3 ?e (PostSignal ''p1'' ?b)) = Err 400 ''Invalid address''"
    by simp
  have "map address (Map_values (signals st3)) = [addr_a]"
    by (simp add: st3_eq Map_values_def)
  with z get nz d g u show ?thesis by (simp add: lower_zz)
qed

end
